theory Spec2Isabelle
  imports Main "HOL-Library.Word"
begin

section \<open>Characters and strings (utils.hpp, the C library in the "C" locale)\<close>

text \<open>
  The character classes of \<^verbatim>\<open><cctype>\<close> in the default "C" locale, on the byte value
  of the character.
\<close>

definition isalpha :: "char \<Rightarrow> bool" where
  "isalpha ch = (let n = (of_char ch :: nat) in (65 \<le> n \<and> n \<le> 90) \<or> (97 \<le> n \<and> n \<le> 122))"

definition isdigit :: "char \<Rightarrow> bool" where
  "isdigit ch = (let n = (of_char ch :: nat) in 48 \<le> n \<and> n \<le> 57)"

definition isalnum :: "char \<Rightarrow> bool" where
  "isalnum ch = (isalpha ch \<or> isdigit ch)"

definition isspace :: "char \<Rightarrow> bool" where
  "isspace ch = (let n = (of_char ch :: nat) in n = 32 \<or> (9 \<le> n \<and> n \<le> 13))"

text \<open>\<^verbatim>\<open>std::string_view::substr(pos, n)\<close> for \<open>pos \<le> size\<close> (the only way it is called).\<close>

definition substr :: "string \<Rightarrow> nat \<Rightarrow> nat \<Rightarrow> string" where
  "substr str pos n = take n (drop pos str)"

text \<open>\<^verbatim>\<open>std::string_view::find(ch)\<close>: the index of the first occurrence, \<open>None\<close> for npos.\<close>

fun find :: "string \<Rightarrow> char \<Rightarrow> nat option" where
  "find [] ch = None"
| "find (x # xs) ch = (if x = ch then Some 0 else map_option Suc (find xs ch))"

text \<open>
  \<^verbatim>\<open>StringUtils::trim\<close>. The two while loops are the functions \<open>trim_start\<close> and
  \<open>trim_end\<close> on the indices \<open>sIndex\<close> and \<open>eIndex\<close>.
\<close>

function trim_start :: "string \<Rightarrow> nat \<Rightarrow> nat" where
  "trim_start str sIndex =
     (if sIndex < length str \<and> isspace (str ! sIndex) then trim_start str (sIndex + 1) else sIndex)"
  by pat_completeness auto
termination
  by (relation "measure (\<lambda>(str, sIndex). length str - sIndex)") auto

function trim_end :: "string \<Rightarrow> nat \<Rightarrow> nat \<Rightarrow> nat" where
  "trim_end str sIndex eIndex =
     (if eIndex > sIndex \<and> isspace (str ! eIndex) then trim_end str sIndex (eIndex - 1) else eIndex)"
  by pat_completeness auto
termination
  by (relation "measure (\<lambda>(str, sIndex, eIndex). eIndex)") auto

declare trim_start.simps [simp del] trim_end.simps [simp del]

definition trim :: "string \<Rightarrow> string" where
  "trim str =
     (if str = [] then str
      else let sIndex = trim_start str 0 in
        if sIndex = length str then []
        else let eIndex = trim_end str sIndex (length str - 1) in
          substr str sIndex (eIndex - sIndex + 1))"

section \<open>Errors (exceptions.hpp and the standard library)\<close>

text \<open>
  Every exception the core can raise, with the data its message is built from.
  \<open>OutOfRange val min max\<close> holds the three numbers that \<^verbatim>\<open>ParseException::outOfRange\<close>
  renders; \<open>InvalidSize name min max isShort\<close> the arguments of
  \<^verbatim>\<open>BuildException::invalidSize\<close>. The \<open>Std\<close> constructors are the exceptions of the
  standard library (\<^verbatim>\<open>std::stoll\<close>, \<^verbatim>\<open>vector::at\<close>, \<^verbatim>\<open>vector::reserve\<close>); \<open>UserError\<close> is
  whatever a user-registered converter raises.
\<close>

datatype error =
    UnknownArg string
  | InsufficientValues string
  | MultiArg string
  | OutOfRange int int int
  | InvalidName string
  | EmptyName string
  | InvalidSize string "8 word" "8 word" bool
  | StdInvalidArgument
  | StdOutOfRange
  | StdLengthError
  | UserError string

section \<open>Name validation (validations.hpp)\<close>

record NameValidationConfig =
  shortNameLimit :: "8 word"
  longNameLimit :: "8 word"
  nameContainsDots :: bool
  nameContainsDashes :: bool
  nameContainsUnderscores :: bool
  reserverNames :: "string list"

definition defaultShortLimit :: "8 word" where
  "defaultShortLimit = 3"

definition defaultLongLimit :: "8 word" where
  "defaultLongLimit = 100"

definition defualtConfig :: NameValidationConfig where
  "defualtConfig =
     \<lparr>shortNameLimit = defaultShortLimit, longNameLimit = defaultLongLimit,
      nameContainsDots = False, nameContainsDashes = True, nameContainsUnderscores = True,
      reserverNames = []\<rparr>"

text \<open>
  The process-wide policy \<^verbatim>\<open>NameValidations::options\<close> is the parameter \<open>options\<close> of
  every function that reads it.
\<close>

definition validChar :: "NameValidationConfig \<Rightarrow> char \<Rightarrow> bool \<Rightarrow> bool" where
  "validChar options ch first =
     (if first then isalpha ch
      else if isalnum ch then True
      else if nameContainsDashes options \<and> ch = CHR ''-'' then True
      else if nameContainsDots options \<and> ch = CHR ''.'' then True
      else if nameContainsUnderscores options \<and> ch = CHR ''_'' then True
      else False)"

text \<open>The loop of \<^verbatim>\<open>NameValidations::validateName\<close> over the characters still to visit.\<close>

fun validateName_loop :: "NameValidationConfig \<Rightarrow> string \<Rightarrow> bool \<Rightarrow> string \<Rightarrow> error + unit" where
  "validateName_loop options name first [] = Inr ()"
| "validateName_loop options name first (l # ls) =
     (if first \<and> \<not> validChar options l True then Inl (InvalidName name)
      else if \<not> validChar options l False then Inl (InvalidName name)
      else validateName_loop options name False ls)"

definition validateName :: "NameValidationConfig \<Rightarrow> string \<Rightarrow> error + unit" where
  "validateName options name =
     (if name = [] then Inl (EmptyName ''Argument name'')
      else validateName_loop options name True name)"

definition validateSize :: "NameValidationConfig \<Rightarrow> string \<Rightarrow> bool \<Rightarrow> error + unit" where
  "validateSize options name isShort =
     (let size = length name in
      if isShort \<and> (size > unat (shortNameLimit options) \<or> size = 0)
      then Inl (InvalidSize name 0 (shortNameLimit options) True)
      else if \<not> isShort \<and> (size \<le> unat (shortNameLimit options) \<or> size = 0
                            \<or> size > unat (longNameLimit options))
      then Inl (InvalidSize name (shortNameLimit options) (longNameLimit options) False)
      else Inr ())"

section \<open>Conversions (option.hpp)\<close>

text \<open>
  \<^verbatim>\<open>std::stoll\<close> and \<^verbatim>\<open>std::stoull\<close> belong to the standard library, not to the
  repository; they are written out here as the C++ standard defines them (\<^verbatim>\<open>strtoll\<close>
  and \<^verbatim>\<open>strtoull\<close> in base 10). \<open>subject\<close> finds the subject sequence: white space
  is skipped, then an optional sign, then the longest run of decimal digits; anything
  after it is ignored. No digit: \<^verbatim>\<open>std::invalid_argument\<close>. A value outside the 64-bit
  type: \<^verbatim>\<open>std::out_of_range\<close>. \<^verbatim>\<open>strtoull\<close> accepts a minus sign and negates in the
  unsigned type, that is modulo \<open>2 ^ 64\<close>.
\<close>

definition digit_value :: "char \<Rightarrow> nat" where
  "digit_value ch = of_char ch - 48"

definition digits_value :: "string \<Rightarrow> nat" where
  "digits_value ds = foldl (\<lambda>acc ch. 10 * acc + digit_value ch) 0 ds"

definition subject :: "string \<Rightarrow> bool \<times> string" where
  "subject str =
     (case dropWhile isspace str of
        [] \<Rightarrow> (False, [])
      | c # cs \<Rightarrow>
          if c = CHR ''-'' then (True, takeWhile isdigit cs)
          else if c = CHR ''+'' then (False, takeWhile isdigit cs)
          else (False, takeWhile isdigit (c # cs)))"

definition stoll :: "string \<Rightarrow> error + int" where
  "stoll str =
     (let (neg, ds) = subject str in
      if ds = [] then Inl StdInvalidArgument
      else let v = (if neg then - int (digits_value ds) else int (digits_value ds)) in
        if v < - (2 ^ 63) \<or> v > 2 ^ 63 - 1 then Inl StdOutOfRange else Inr v)"

definition stoull :: "string \<Rightarrow> error + int" where
  "stoull str =
     (let (neg, ds) = subject str in
      if ds = [] then Inl StdInvalidArgument
      else let n = int (digits_value ds) in
        if n > 2 ^ 64 - 1 then Inl StdOutOfRange
        else Inr (if neg then (- n) mod 2 ^ 64 else n))"

text \<open>
  \<^verbatim>\<open>NumberUtils::toString\<close> on an integer is \<^verbatim>\<open>std::to_string\<close>: the decimal digits, with
  a minus sign for a negative value.
\<close>

definition digit_char :: "nat \<Rightarrow> char" where
  "digit_char d = char_of (48 + d)"

function to_string_nat :: "nat \<Rightarrow> string" where
  "to_string_nat n =
     (if n < 10 then [digit_char n]
      else to_string_nat (n div 10) @ [digit_char (n mod 10)])"
  by pat_completeness auto
termination
  by (relation "measure id") auto

declare to_string_nat.simps [simp del]

definition to_string :: "int \<Rightarrow> string" where
  "to_string val =
     (if val < 0 then CHR ''-'' # to_string_nat (nat (- val)) else to_string_nat (nat val))"

text \<open>The fixed-width integer types of the concepts \<^verbatim>\<open>IsSignedInteger\<close> and \<^verbatim>\<open>IsUnsignedInteger\<close>.\<close>

datatype sint_type = Int8 | Int16 | Int32 | Int64

datatype uint_type = UInt8 | UInt16 | UInt32 | UInt64

fun sbits :: "sint_type \<Rightarrow> nat" where
  "sbits Int8 = 8"
| "sbits Int16 = 16"
| "sbits Int32 = 32"
| "sbits Int64 = 64"

fun ubits :: "uint_type \<Rightarrow> nat" where
  "ubits UInt8 = 8"
| "ubits UInt16 = 16"
| "ubits UInt32 = 32"
| "ubits UInt64 = 64"

text \<open>\<^verbatim>\<open>NumberUtils::getLimits<T>\<close>: \<^verbatim>\<open>numeric_limits<T>::min()\<close> and \<^verbatim>\<open>max()\<close>.\<close>

definition getLimits_signed :: "sint_type \<Rightarrow> int \<times> int" where
  "getLimits_signed T = (- (2 ^ (sbits T - 1)), 2 ^ (sbits T - 1) - 1)"

definition getLimits_unsigned :: "uint_type \<Rightarrow> int \<times> int" where
  "getLimits_unsigned T = (0, 2 ^ ubits T - 1)"

text \<open>
  \<^verbatim>\<open>ParseException::outOfRange<T>\<close>. Both overloads take the value in an unsigned 64-bit
  parameter (\<^verbatim>\<open>uint64_t val\<close> for the signed types, \<^verbatim>\<open>size_t val\<close> for the unsigned
  ones), so the \<^verbatim>\<open>long long\<close> that the signed converter passes is converted modulo
  \<open>2 ^ 64\<close> before it is rendered.
\<close>

definition outOfRange_signed :: "sint_type \<Rightarrow> int \<Rightarrow> error" where
  "outOfRange_signed T val =
     (let (min, max) = getLimits_signed T; val64 = val mod 2 ^ 64 in OutOfRange val64 min max)"

definition outOfRange_unsigned :: "uint_type \<Rightarrow> int \<Rightarrow> error" where
  "outOfRange_unsigned T val =
     (let (min, max) = getLimits_unsigned T; val64 = val mod 2 ^ 64 in OutOfRange val64 min max)"

definition fromStr_signed :: "sint_type \<Rightarrow> string \<Rightarrow> error + int" where
  "fromStr_signed T str =
     (case stoll str of
        Inl e \<Rightarrow> Inl e
      | Inr value \<Rightarrow>
          let (min, max) = getLimits_signed T in
          if value < min \<or> value > max then Inl (outOfRange_signed T value) else Inr value)"

definition fromStr_unsigned :: "uint_type \<Rightarrow> string \<Rightarrow> error + int" where
  "fromStr_unsigned T str =
     (case stoull str of
        Inl e \<Rightarrow> Inl e
      | Inr value \<Rightarrow>
          let (min, max) = getLimits_unsigned T in
          if value < min \<or> value > max then Inl (outOfRange_unsigned T value) else Inr value)"

text \<open>\<^verbatim>\<open>fromStr<bool>\<close>: the comparison with the literal, nothing else.\<close>

definition fromStr_bool :: "string \<Rightarrow> bool" where
  "fromStr_bool str = (str = ''true'')"

definition fromStr_string :: "string \<Rightarrow> string" where
  "fromStr_string str = str"

section \<open>Target variables and options (option.hpp)\<close>

text \<open>
  An option holds a typed pointer \<^verbatim>\<open>V*\<close> to a variable of the caller. The caller's
  memory is a store with one heap for each kind of variable, so a \<^verbatim>\<open>bool*\<close> and an
  \<^verbatim>\<open>int*\<close> never alias, while two pointers of one type may. \<open>'u var\<close> is the pointer
  together with the type \<open>V\<close> it was created at; for \<^verbatim>\<open>float\<close>, \<^verbatim>\<open>double\<close> and
  the types registered with \<^verbatim>\<open>REGISTER_TYPE\<close> the converter \<^verbatim>\<open>fromStr<V>\<close> is a
  parameter. A name cannot end in an underscore here, so the fields \<^verbatim>\<open>needsValue_\<close>,
  \<^verbatim>\<open>shortName_\<close>, \<^verbatim>\<open>longName_\<close> and \<^verbatim>\<open>value_\<close> of an option are \<open>needsValue\<close>,
  \<open>shortNameOf\<close>, \<open>longNameOf\<close> and \<open>valuePtr\<close>, the fields \<^verbatim>\<open>options_\<close> and \<^verbatim>\<open>name_\<close> of
  a command are \<open>cmdOptions\<close> and \<open>cmdName\<close>, and the fields \<^verbatim>\<open>options_\<close> and
  \<^verbatim>\<open>commands_\<close> of the application are \<open>appOptions\<close> and \<open>commands\<close>.
\<close>

type_synonym addr = nat

record 'u store =
  bools :: "addr \<Rightarrow> bool"
  ints :: "addr \<Rightarrow> int"
  strings :: "addr \<Rightarrow> string"
  others :: "addr \<Rightarrow> 'u"

datatype 'u var =
    BoolVar addr
  | SignedVar sint_type addr
  | UnsignedVar uint_type addr
  | StringVar addr
  | OtherVar "string \<Rightarrow> error + 'u" addr

record 'u OptionBase =
  needsValue :: bool
  shortNameOf :: string
  longNameOf :: string
  valuePtr :: "'u var"

text \<open>\<^verbatim>\<open>Option<V>::parseValue\<close>: convert, then write through the pointer.\<close>

definition parseValue :: "'u OptionBase \<Rightarrow> string \<Rightarrow> 'u store \<Rightarrow> error + 'u store" where
  "parseValue opt str st =
     (case valuePtr opt of
        BoolVar a \<Rightarrow> Inr (st\<lparr>bools := (bools st)(a := fromStr_bool str)\<rparr>)
      | SignedVar T a \<Rightarrow>
          (case fromStr_signed T str of
             Inl e \<Rightarrow> Inl e
           | Inr valV \<Rightarrow> Inr (st\<lparr>ints := (ints st)(a := valV)\<rparr>))
      | UnsignedVar T a \<Rightarrow>
          (case fromStr_unsigned T str of
             Inl e \<Rightarrow> Inl e
           | Inr valV \<Rightarrow> Inr (st\<lparr>ints := (ints st)(a := valV)\<rparr>))
      | StringVar a \<Rightarrow> Inr (st\<lparr>strings := (strings st)(a := fromStr_string str)\<rparr>)
      | OtherVar conv a \<Rightarrow>
          (case conv str of
             Inl e \<Rightarrow> Inl e
           | Inr valV \<Rightarrow> Inr (st\<lparr>others := (others st)(a := valV)\<rparr>)))"

text \<open>
  \<^verbatim>\<open>Option<V>::validateName\<close>, the private parser of the spec string (named
  \<open>Option_validateName\<close> here, \<open>validateName\<close> being the one of \<^verbatim>\<open>NameValidations\<close>). It returns
  the short and the long name, either of which may be empty.
\<close>

definition starts_with :: "string \<Rightarrow> string \<Rightarrow> bool" where
  "starts_with str pre = (take (length pre) str = pre)"

definition Option_validateName :: "NameValidationConfig \<Rightarrow> string \<Rightarrow> error + (string \<times> string)" where
  "Option_validateName options name =
     (if name = [] then Inl (EmptyName ''Argument Name'')
      else let data = trim name in
        if data = [] then Inl (EmptyName ''Argument Name'')
        else (case find data CHR '','' of
          Some separator \<Rightarrow>
            (let shortName = trim (substr data 0 separator);
                 longName = trim (drop (separator + 1) data) in
             if shortName = [] then Inl (EmptyName ''Short Name'')
             else if longName = [] then Inl (EmptyName ''Long name'')
             else let shortName = (if hd shortName = CHR ''-'' then drop 1 shortName else shortName);
                      longName = (if starts_with longName ''--'' then drop 2 longName else longName) in
               (case validateName options shortName of Inl e \<Rightarrow> Inl e | Inr _ \<Rightarrow>
               (case validateName options longName of Inl e \<Rightarrow> Inl e | Inr _ \<Rightarrow>
               (case validateSize options shortName True of Inl e \<Rightarrow> Inl e | Inr _ \<Rightarrow>
               (case validateSize options longName False of Inl e \<Rightarrow> Inl e | Inr _ \<Rightarrow>
                  Inr (shortName, longName))))))
        | None \<Rightarrow>
            (let (data, isShort) =
               (if starts_with data ''--'' \<and> length data \<ge> 3 then (drop 2 data, False)
                else if hd data = CHR ''-'' \<and> length data \<ge> 2 then (drop 1 data, True)
                else (data, length data \<le> 3));
                 data = trim data in
             (case validateSize options data isShort of Inl e \<Rightarrow> Inl e | Inr _ \<Rightarrow>
             (case validateName options data of Inl e \<Rightarrow> Inl e | Inr _ \<Rightarrow>
                if isShort then Inr (data, []) else Inr ([], data))))))"

fun is_bool :: "'u var \<Rightarrow> bool" where
  "is_bool (BoolVar a) = True"
| "is_bool _ = False"

text \<open>
  \<^verbatim>\<open>Option<V>::createOption\<close>. \<open>needsValue\<close> starts as true and is cleared when \<open>V\<close> is
  \<^verbatim>\<open>bool\<close>.
\<close>

definition createOption :: "NameValidationConfig \<Rightarrow> string \<Rightarrow> 'u var \<Rightarrow> error + 'u OptionBase" where
  "createOption options name var =
     (case Option_validateName options name of
        Inl e \<Rightarrow> Inl e
      | Inr (shortName, longName) \<Rightarrow>
          Inr \<lparr>needsValue = (if is_bool var then False else True),
               shortNameOf = (if shortName \<noteq> [] then CHR ''-'' # shortName else shortName),
               longNameOf = (if longName \<noteq> [] then ''--'' @ longName else longName),
               valuePtr = var\<rparr>)"

section \<open>Commands (command.hpp)\<close>

record 'u Command =
  cmdOptions :: "'u OptionBase list"
  cmdName :: string

definition createCommand :: "NameValidationConfig \<Rightarrow> string \<Rightarrow> error + 'u Command" where
  "createCommand options name =
     (case validateName options name of
        Inl e \<Rightarrow> Inl e
      | Inr _ \<Rightarrow>
          (case validateSize options name False of
             Inl e \<Rightarrow> Inl e
           | Inr _ \<Rightarrow> Inr \<lparr>cmdOptions = [], cmdName = name\<rparr>))"

definition Command_addOption ::
  "NameValidationConfig \<Rightarrow> 'u Command \<Rightarrow> string \<Rightarrow> 'u var \<Rightarrow> error + 'u Command" where
  "Command_addOption options cmd name var =
     (case createOption options name var of
        Inl e \<Rightarrow> Inl e
      | Inr optPtr \<Rightarrow> Inr (cmd\<lparr>cmdOptions := cmdOptions cmd @ [optPtr]\<rparr>))"

text \<open>
  \<^verbatim>\<open>std::map<std::string, size_t>\<close> is a list of pairs kept in key order, the order
  in which the map is iterated; \<open>string_less\<close> is \<^verbatim>\<open>std::less<std::string>\<close>
  (lexicographic on the bytes), \<open>map_set\<close> is \<^verbatim>\<open>m[k] = v\<close>, and \<open>map_of\<close> looks a key
  up (\<^verbatim>\<open>contains\<close> and \<^verbatim>\<open>at\<close>).
\<close>

type_synonym std_map = "(string \<times> nat) list"

fun string_less :: "string \<Rightarrow> string \<Rightarrow> bool" where
  "string_less [] [] = False"
| "string_less [] (y # ys) = True"
| "string_less (x # xs) [] = False"
| "string_less (x # xs) (y # ys) =
     ((of_char x :: nat) < of_char y \<or> (x = y \<and> string_less xs ys))"

fun map_set :: "std_map \<Rightarrow> string \<Rightarrow> nat \<Rightarrow> std_map" where
  "map_set [] k v = [(k, v)]"
| "map_set ((k', v') # m) k v =
     (if k = k' then (k, v) # m
      else if string_less k k' then (k, v) # (k', v') # m
      else (k', v') # map_set m k v)"

text \<open>
  The loop that fills the name map from the options, \<open>idx\<close> counting them; it is the
  same in \<^verbatim>\<open>Command::parseCommand\<close> and in \<^verbatim>\<open>Application::buildReconMaps\<close>.
\<close>

fun buildNameMap :: "'u OptionBase list \<Rightarrow> nat \<Rightarrow> std_map \<Rightarrow> std_map" where
  "buildNameMap [] idx nameMap = nameMap"
| "buildNameMap (opt # opts) idx nameMap =
     (let sName = shortNameOf opt;
          lName = longNameOf opt;
          nameMap = (if sName \<noteq> [] then map_set nameMap sName idx else nameMap);
          nameMap = (if lName \<noteq> [] then map_set nameMap lName idx else nameMap)
      in buildNameMap opts (idx + 1) nameMap)"

text \<open>
  \<^verbatim>\<open>Application::buildDuplicateArgNames\<close>, and the same loop written inline in
  \<^verbatim>\<open>parseCommand\<close>: the names that map to the index, in the order of the map.
\<close>

definition buildDuplicateArgNames :: "std_map \<Rightarrow> nat \<Rightarrow> string" where
  "buildDuplicateArgNames nameMap targetIdx =
     foldl (\<lambda>argNames (name, index).
              if index = targetIdx then argNames @ name @ '', '' else argNames) [] nameMap"

text \<open>
  The loop of \<^verbatim>\<open>parseCommand\<close>. The body reads \<^verbatim>\<open>args[argsIndex]\<close>, tests
  \<^verbatim>\<open>argsIndex + 1 >= args.size()\<close> and reads \<^verbatim>\<open>args.at(argsIndex + 1)\<close>; the list of
  the tokens from \<open>argsIndex\<close> on is all it sees of \<open>args\<close>, and it is the argument
  here: \<open>arg # rest\<close> is the token at \<open>argsIndex\<close> followed by the later ones, and
  \<open>rest = []\<close> says that there is no next token. \<open>parsed\<close> is the set of keys of the
  local map \<^verbatim>\<open>parsed\<close>. The result is the exception raised, if any, with \<open>parsed\<close> and
  the caller's memory as they are at that moment: nothing is rolled back.
\<close>

fun parseCommand_loop ::
  "'u OptionBase list \<Rightarrow> std_map \<Rightarrow> string list \<Rightarrow> nat set \<Rightarrow> 'u store
     \<Rightarrow> error option \<times> nat set \<times> 'u store" where
  "parseCommand_loop opts nameMap [] parsed st = (None, parsed, st)"
| "parseCommand_loop opts nameMap (arg # rest) parsed st =
     (case map_of nameMap arg of
        None \<Rightarrow> (Some (UnknownArg arg), parsed, st)
      | Some argIdx \<Rightarrow>
          if argIdx \<in> parsed
          then (Some (MultiArg (buildDuplicateArgNames nameMap argIdx)), parsed, st)
          else if argIdx \<ge> length opts then (Some StdOutOfRange, parsed, st)
          else if needsValue (opts ! argIdx) then
            (case rest of
               [] \<Rightarrow> (Some (InsufficientValues arg), parsed, st)
             | next # rest' \<Rightarrow>
                 (case parseValue (opts ! argIdx) next st of
                    Inl e \<Rightarrow> (Some e, parsed, st)
                  | Inr st' \<Rightarrow> parseCommand_loop opts nameMap rest' (insert argIdx parsed) st'))
          else
            (case parseValue (opts ! argIdx) ''true'' st of
               Inl e \<Rightarrow> (Some e, parsed, st)
             | Inr st' \<Rightarrow> parseCommand_loop opts nameMap rest (insert argIdx parsed) st'))"

definition parseCommand :: "'u Command \<Rightarrow> string list \<Rightarrow> 'u store \<Rightarrow> error option \<times> 'u store" where
  "parseCommand cmd args st =
     (let nameMap = buildNameMap (cmdOptions cmd) 0 [];
          (r, parsed, st') = parseCommand_loop (cmdOptions cmd) nameMap args {} st
      in (r, st'))"

section \<open>The application (application.hpp)\<close>

text \<open>A command is registered together with the pointer to the caller's \<open>executed\<close> flag.\<close>

record 'u Application =
  appOptions :: "'u OptionBase list"
  commands :: "('u Command \<times> addr) list"

definition createApp :: "'u Application" where
  "createApp = \<lparr>appOptions = [], commands = []\<rparr>"

definition addOption ::
  "NameValidationConfig \<Rightarrow> 'u Application \<Rightarrow> string \<Rightarrow> 'u var \<Rightarrow> error + 'u Application" where
  "addOption options app name var =
     (case createOption options name var of
        Inl e \<Rightarrow> Inl e
      | Inr optPtr \<Rightarrow> Inr (app\<lparr>appOptions := appOptions app @ [optPtr]\<rparr>))"

definition addCommand ::
  "NameValidationConfig \<Rightarrow> 'u Application \<Rightarrow> string \<Rightarrow> addr \<Rightarrow> error + 'u Application" where
  "addCommand options app name var =
     (case createCommand options name of
        Inl e \<Rightarrow> Inl e
      | Inr cmdPtr \<Rightarrow> Inr (app\<lparr>commands := commands app @ [(cmdPtr, var)]\<rparr>))"

text \<open>
  \<^verbatim>\<open>buildArray\<close>: the tokens \<^verbatim>\<open>argv[1]\<close>, ..., \<^verbatim>\<open>argv[argc - 1]\<close>. \<^verbatim>\<open>reserve\<close> takes a
  \<^verbatim>\<open>size_t\<close>, so a negative \<^verbatim>\<open>argc - 1\<close> asks for more than \<^verbatim>\<open>max_size()\<close> and raises
  \<^verbatim>\<open>std::length_error\<close>.
\<close>

definition buildArray :: "int \<Rightarrow> string list \<Rightarrow> error + string list" where
  "buildArray argc argv =
     (if argc - 1 < 0 then Inl StdLengthError
      else Inr (map (\<lambda>idx. argv ! idx) [1..<nat argc]))"

fun buildCommandMap :: "('u Command \<times> addr) list \<Rightarrow> nat \<Rightarrow> std_map \<Rightarrow> std_map" where
  "buildCommandMap [] idx commandMap = commandMap"
| "buildCommandMap (cmd # cmds) idx commandMap =
     buildCommandMap cmds (idx + 1) (map_set commandMap (cmdName (fst cmd)) idx)"

definition buildReconMaps :: "'u Application \<Rightarrow> std_map \<times> std_map" where
  "buildReconMaps app =
     (buildNameMap (appOptions app) 0 [], buildCommandMap (commands app) 0 [])"

text \<open>
  \<^verbatim>\<open>processCommand\<close>. \<open>cmdArgs\<close> is the slice of the tokens after the command's name;
  the flag is written after \<^verbatim>\<open>parseCommand\<close> has returned, so not when it raises.
\<close>

definition processCommand ::
  "'u Application \<Rightarrow> nat \<Rightarrow> string list \<Rightarrow> 'u store \<Rightarrow> error option \<times> 'u store" where
  "processCommand app cmdIdx cmdArgs st =
     (if cmdIdx \<ge> length (commands app) then (Some StdOutOfRange, st)
      else let (cmdPtr, executed) = commands app ! cmdIdx in
        (case parseCommand cmdPtr cmdArgs st of
           (Some e, st') \<Rightarrow> (Some e, st')
         | (None, st') \<Rightarrow> (None, st'\<lparr>bools := (bools st')(executed := True)\<rparr>)))"

text \<open>
  \<^verbatim>\<open>processOption\<close>, on the tokens \<open>rest\<close> after \<open>arg\<close>. It returns how many of them it
  consumed (the \<^verbatim>\<open>idx++\<close>), the new \<open>parsedOptions\<close> and the new memory; when it raises,
  it has written nothing.
\<close>

definition processOption ::
  "'u OptionBase list \<Rightarrow> string list \<Rightarrow> std_map \<Rightarrow> nat \<Rightarrow> nat set \<Rightarrow> string \<Rightarrow> 'u store
     \<Rightarrow> error + (nat \<times> nat set \<times> 'u store)" where
  "processOption opts rest optionMap optIdx parsedOptions arg st =
     (if optIdx \<in> parsedOptions then Inl (MultiArg (buildDuplicateArgNames optionMap optIdx))
      else if optIdx \<ge> length opts then Inl StdOutOfRange
      else if needsValue (opts ! optIdx) then
        (case rest of
           [] \<Rightarrow> Inl (InsufficientValues arg)
         | next # rest' \<Rightarrow>
             (case parseValue (opts ! optIdx) next st of
                Inl e \<Rightarrow> Inl e
              | Inr st' \<Rightarrow> Inr (1, insert optIdx parsedOptions, st')))
      else
        (case parseValue (opts ! optIdx) ''true'' st of
           Inl e \<Rightarrow> Inl e
         | Inr st' \<Rightarrow> Inr (0, insert optIdx parsedOptions, st')))"

text \<open>
  The loop of \<^verbatim>\<open>Application::parse\<close> leaves in one of three ways: an exception, the
  end of the tokens, or the \<^verbatim>\<open>break\<close> at a token that is a command name. \<open>globalWalk\<close>
  is the loop up to that point and returns how it left; for the \<^verbatim>\<open>break\<close> it returns
  the index of the command and the tokens after its name, and \<open>parseArgs\<close> then calls
  \<open>processCommand\<close> on them, the last thing the loop does.
\<close>

datatype 'u walk =
    Raised error "nat set" "'u store"
  | AtEnd "nat set" "'u store"
  | AtCommand nat "string list" "nat set" "'u store"

fun globalWalk ::
  "'u OptionBase list \<Rightarrow> std_map \<Rightarrow> std_map \<Rightarrow> string list \<Rightarrow> nat set \<Rightarrow> 'u store \<Rightarrow> 'u walk" where
  "globalWalk opts optionMap commandMap [] parsedOptions st = AtEnd parsedOptions st"
| "globalWalk opts optionMap commandMap (arg # rest) parsedOptions st =
     (case map_of commandMap arg of
        Some cmdIdx \<Rightarrow> AtCommand cmdIdx rest parsedOptions st
      | None \<Rightarrow>
          (case map_of optionMap arg of
             Some optIdx \<Rightarrow>
               (case processOption opts rest optionMap optIdx parsedOptions arg st of
                  Inl e \<Rightarrow> Raised e parsedOptions st
                | Inr (n, parsedOptions', st') \<Rightarrow>
                    globalWalk opts optionMap commandMap (drop n rest) parsedOptions' st')
           | None \<Rightarrow> Raised (UnknownArg arg) parsedOptions st))"

text \<open>
  \<^verbatim>\<open>Application::parse\<close> is \<open>buildArray\<close> followed by \<open>parseArgs\<close>, the rest of its body,
  on the tokens: for a program name \<open>prog\<close> and tokens \<open>args\<close>, the call with
  \<open>argc = 1 + length args\<close> and \<open>argv = prog # args\<close> is \<open>parseArgs\<close> on \<open>args\<close>
  (\<open>parse_tokens\<close> below).
\<close>

definition parseArgs :: "'u Application \<Rightarrow> string list \<Rightarrow> 'u store \<Rightarrow> error option \<times> 'u store" where
  "parseArgs app args st =
     (let (optionMap, commandMap) = buildReconMaps app in
      case globalWalk (appOptions app) optionMap commandMap args {} st of
        Raised e parsedOptions st' \<Rightarrow> (Some e, st')
      | AtEnd parsedOptions st' \<Rightarrow> (None, st')
      | AtCommand cmdIdx cmdArgs parsedOptions st' \<Rightarrow> processCommand app cmdIdx cmdArgs st')"

definition parse :: "'u Application \<Rightarrow> int \<Rightarrow> string list \<Rightarrow> 'u store \<Rightarrow> error option \<times> 'u store" where
  "parse app argc argv st =
     (case buildArray argc argv of
        Inl e \<Rightarrow> (Some e, st)
      | Inr args \<Rightarrow> parseArgs app args st)"

section \<open>Vocabulary for the properties\<close>

text \<open>
  A location is an address in one of the heaps of the store; \<open>loc_of\<close> is the location
  a typed pointer points to. \<open>unchanged_outside L st st'\<close> says that \<open>st'\<close> agrees with
  \<open>st\<close> at every location that is not in \<open>L\<close>, and \<open>targets opts matched\<close> are the
  locations of the target variables of the options whose indices are in \<open>matched\<close>.
\<close>

datatype loc = BoolLoc addr | IntLoc addr | StringLoc addr | OtherLoc addr

fun loc_of :: "'u var \<Rightarrow> loc" where
  "loc_of (BoolVar a) = BoolLoc a"
| "loc_of (SignedVar T a) = IntLoc a"
| "loc_of (UnsignedVar T a) = IntLoc a"
| "loc_of (StringVar a) = StringLoc a"
| "loc_of (OtherVar conv a) = OtherLoc a"

definition unchanged_outside :: "loc set \<Rightarrow> 'u store \<Rightarrow> 'u store \<Rightarrow> bool" where
  "unchanged_outside L st st' =
     ((\<forall>a. BoolLoc a \<notin> L \<longrightarrow> bools st' a = bools st a)
    \<and> (\<forall>a. IntLoc a \<notin> L \<longrightarrow> ints st' a = ints st a)
    \<and> (\<forall>a. StringLoc a \<notin> L \<longrightarrow> strings st' a = strings st a)
    \<and> (\<forall>a. OtherLoc a \<notin> L \<longrightarrow> others st' a = others st a))"

definition targets :: "'u OptionBase list \<Rightarrow> nat set \<Rightarrow> loc set" where
  "targets opts matched = {loc_of (valuePtr (opts ! k)) | k. k \<in> matched \<and> k < length opts}"

text \<open>The maps that \<^verbatim>\<open>parse\<close> and \<^verbatim>\<open>parseCommand\<close> build before they walk the tokens.\<close>

abbreviation optionMapOf :: "'u Application \<Rightarrow> std_map" where
  "optionMapOf app \<equiv> buildNameMap (appOptions app) 0 []"

abbreviation commandMapOf :: "'u Application \<Rightarrow> std_map" where
  "commandMapOf app \<equiv> buildCommandMap (commands app) 0 []"

abbreviation nameMapOf :: "'u Command \<Rightarrow> std_map" where
  "nameMapOf cmd \<equiv> buildNameMap (cmdOptions cmd) 0 []"

text \<open>What a walk has matched so far, and the memory it leaves.\<close>

fun walk_parsed :: "'u walk \<Rightarrow> nat set" where
  "walk_parsed (Raised e matched st) = matched"
| "walk_parsed (AtEnd matched st) = matched"
| "walk_parsed (AtCommand cmdIdx rest matched st) = matched"

fun walk_store :: "'u walk \<Rightarrow> 'u store" where
  "walk_store (Raised e matched st) = st"
| "walk_store (AtEnd matched st) = st"
| "walk_store (AtCommand cmdIdx rest matched st) = st"

text \<open>
  The constructor of \<^verbatim>\<open>Option<V>\<close> is private, so every option object comes from
  \<open>createOption\<close>, which clears \<open>needsValue\<close> for \<^verbatim>\<open>bool\<close> and for nothing else.
\<close>

definition wellFormed :: "'u OptionBase \<Rightarrow> bool" where
  "wellFormed opt = (needsValue opt = (\<not> is_bool (valuePtr opt)))"

section \<open>Example registrations\<close>

text \<open>
  A small application for the concrete cases below: the options that
  \<open>createOption\<close> returns for the specs \<open>"-n,--number"\<close> (an \<^verbatim>\<open>int32_t\<close> at address 0),
  \<open>"--name"\<close> (a string at address 0) and \<open>"-v,--verbose"\<close> (a \<^verbatim>\<open>bool\<close> at address 0), the
  command \<open>"build"\<close> with no option of its own, whose \<open>executed\<close> flag is the \<^verbatim>\<open>bool\<close> at
  address 1, and a memory in which every flag is false.
\<close>

definition demo_store :: "unit store" where
  "demo_store = \<lparr>bools = (\<lambda>a. False), ints = (\<lambda>a. 0), strings = (\<lambda>a. []), others = (\<lambda>a. ())\<rparr>"

definition number_option :: "unit OptionBase" where
  "number_option =
     \<lparr>needsValue = True, shortNameOf = ''-n'', longNameOf = ''--number'',
      valuePtr = SignedVar Int32 0\<rparr>"

definition name_option :: "unit OptionBase" where
  "name_option =
     \<lparr>needsValue = True, shortNameOf = [], longNameOf = ''--name'', valuePtr = StringVar 0\<rparr>"

definition verbose_option :: "unit OptionBase" where
  "verbose_option =
     \<lparr>needsValue = False, shortNameOf = ''-v'', longNameOf = ''--verbose'',
      valuePtr = BoolVar 0\<rparr>"

definition number_command :: "unit Command" where
  "number_command = \<lparr>cmdOptions = [number_option], cmdName = ''test''\<rparr>"

definition name_command :: "unit Command" where
  "name_command = \<lparr>cmdOptions = [name_option], cmdName = ''test''\<rparr>"

definition flag_command :: "unit Command" where
  "flag_command = \<lparr>cmdOptions = [verbose_option], cmdName = ''test''\<rparr>"

definition build_command :: "unit Command" where
  "build_command = \<lparr>cmdOptions = [], cmdName = ''build''\<rparr>"

definition demo_app :: "unit Application" where
  "demo_app = \<lparr>appOptions = [name_option, verbose_option], commands = [(build_command, 1)]\<rparr>"

section \<open>The bool converter\<close>

text \<open>
  Claim C8. The bool converter returns true if and only if its input is exactly the
  string "true"; every other string, "false" and the empty string among them, gives
  false. The converter is a total function into \<open>bool\<close>: it has no raising branch.
\<close>

theorem fromStr_bool_iff_true:
  "fromStr_bool str = (str = ''true'') \<and> \<not> fromStr_bool ''false'' \<and> \<not> fromStr_bool ''''"
  by (simp add: fromStr_bool_def)

section \<open>The size rule and command names\<close>

text \<open>
  Claim C7. \<open>validateSize\<close> with \<open>isShort\<close> set fails exactly when the length is 0 or
  above the short limit; with \<open>isShort\<close> clear it fails exactly when the length is 0, at
  most the short limit, or above the long limit. With the default limits 3 and 100,
  \<open>createCommand\<close> therefore rejects every name of length at most 3 or above 100, and
  accepts every name of length 4 to 100 that \<open>validateName\<close> accepts under the policy.
\<close>

theorem validateSize_bounds:
  "isl (validateSize options name True)
     = (length name = 0 \<or> length name > unat (shortNameLimit options))
   \<and> isl (validateSize options name False)
     = (length name = 0 \<or> length name \<le> unat (shortNameLimit options)
        \<or> length name > unat (longNameLimit options))
   \<and> (shortNameLimit options = 3 \<and> longNameLimit options = 100 \<longrightarrow>
        (length name \<le> 3 \<or> length name > 100
           \<longrightarrow> isl (createCommand options name :: error + 'u Command))
      \<and> (4 \<le> length name \<and> length name \<le> 100 \<and> validateName options name = Inr ()
           \<longrightarrow> (createCommand options name :: error + 'u Command)
                 = Inr \<lparr>cmdOptions = [], cmdName = name\<rparr>))"
proof -
  have short: "isl (validateSize options name True)
     = (length name = 0 \<or> length name > unat (shortNameLimit options))"
    by (simp add: validateSize_def Let_def)
  have long: "isl (validateSize options name False)
     = (length name = 0 \<or> length name \<le> unat (shortNameLimit options)
        \<or> length name > unat (longNameLimit options))"
    by (simp add: validateSize_def Let_def)
  have cmd: "isl (createCommand options name :: error + 'u Command)"
    if "shortNameLimit options = 3" "longNameLimit options = 100"
       "length name \<le> 3 \<or> length name > 100"
  proof -
    from that long have "isl (validateSize options name False)" by auto
    then show ?thesis
      by (cases "validateName options name"; cases "validateSize options name False")
         (simp_all add: createCommand_def)
  qed
  have ok: "(createCommand options name :: error + 'u Command)
      = Inr \<lparr>cmdOptions = [], cmdName = name\<rparr>"
    if "shortNameLimit options = 3" "longNameLimit options = 100"
       "4 \<le> length name" "length name \<le> 100" "validateName options name = Inr ()"
  proof -
    from that long have "\<not> isl (validateSize options name False)" by auto
    with that(5) show ?thesis
      by (cases "validateSize options name False") (simp_all add: createCommand_def)
  qed
  from short long cmd ok show ?thesis by blast
qed

theorem validateSize_bounds_witness:
  "isl (createCommand defualtConfig ''abc'' :: error + unit Command)
   \<and> (createCommand defualtConfig ''build'' :: error + unit Command)
       = Inr \<lparr>cmdOptions = [], cmdName = ''build''\<rparr>
   \<and> isl (validateSize defualtConfig ''abcd'' True)
   \<and> \<not> isl (validateSize defualtConfig ''abcd'' False)"
proof -
  have cfg: "shortNameLimit defualtConfig = 3 \<and> longNameLimit defualtConfig = 100"
    by (simp add: defualtConfig_def defaultShortLimit_def defaultLongLimit_def)
  have v: "validateName defualtConfig ''build'' = Inr ()"
    by (simp add: validateName_def validChar_def isalpha_def isalnum_def isdigit_def)
  show ?thesis
    using cfg v
      validateSize_bounds [of defualtConfig "''abc''", where ?'u = unit]
      validateSize_bounds [of defualtConfig "''build''", where ?'u = unit]
      validateSize_bounds [of defualtConfig "''abcd''", where ?'u = unit]
    by simp
qed

section \<open>The integer converters at the edges of their ranges\<close>

text \<open>
  A decimal literal is what \<open>to_string\<close> writes for an integer. \<^verbatim>\<open>std::stoll\<close> and
  \<^verbatim>\<open>std::stoull\<close> read it back, so the converter of a narrower type returns the value
  itself inside the range of the type and the out-of-range error outside it.
\<close>

lemma digit_char_props:
  "d < 10 \<Longrightarrow> isdigit (digit_char d) \<and> digit_value (digit_char d) = d
     \<and> \<not> isspace (digit_char d) \<and> digit_char d \<noteq> CHR ''-'' \<and> digit_char d \<noteq> CHR ''+''"
  by (auto simp: digit_char_def isdigit_def digit_value_def isspace_def Let_def
      dest: arg_cong [where f = "of_char :: char \<Rightarrow> nat"])

lemma to_string_nat_digits: "\<forall>c\<in>set (to_string_nat n). isdigit c"
proof (induction n rule: to_string_nat.induct)
  case (1 n)
  then show ?case
    by (subst to_string_nat.simps) (auto simp: digit_char_props)
qed

lemma to_string_nat_nonempty: "to_string_nat n \<noteq> []"
  by (subst to_string_nat.simps) simp

lemma to_string_nat_hd: "isdigit (hd (to_string_nat n))"
  using to_string_nat_digits [of n] to_string_nat_nonempty [of n]
  by (cases "to_string_nat n") auto

lemma digits_value_snoc: "digits_value (ds @ [c]) = 10 * digits_value ds + digit_value c"
  by (simp add: digits_value_def)

lemma digits_value_to_string_nat: "digits_value (to_string_nat n) = n"
proof (induction n rule: to_string_nat.induct)
  case (1 n)
  show ?case
  proof (cases "n < 10")
    case True
    then show ?thesis
      by (subst to_string_nat.simps) (simp add: digits_value_def digit_char_props)
  next
    case False
    with 1 have "digits_value (to_string_nat (n div 10)) = n div 10" by simp
    with False show ?thesis
      by (subst to_string_nat.simps) (simp add: digits_value_snoc digit_char_props)
  qed
qed

lemma isdigit_not_special: "isdigit c \<Longrightarrow> \<not> isspace c \<and> c \<noteq> CHR ''-'' \<and> c \<noteq> CHR ''+''"
  by (auto simp: isdigit_def isspace_def Let_def)

lemma takeWhile_digits: "takeWhile isdigit (to_string_nat n) = to_string_nat n"
  using to_string_nat_digits [of n] by (simp add: takeWhile_eq_all_conv)

lemma subject_to_string:
  "subject (to_string val) = (val < 0, to_string_nat (nat \<bar>val\<bar>))"
proof (cases "val < 0")
  case True
  have "\<not> isspace CHR ''-''" by (simp add: isspace_def)
  with True show ?thesis
    by (simp add: subject_def to_string_def takeWhile_digits)
next
  case False
  obtain c cs where s: "to_string_nat (nat val) = c # cs"
    using to_string_nat_nonempty [of "nat val"] by (cases "to_string_nat (nat val)") auto
  with to_string_nat_hd [of "nat val"] have "isdigit c" by simp
  from isdigit_not_special [OF this] False s takeWhile_digits [of "nat val"]
  show ?thesis by (simp add: subject_def to_string_def)
qed

lemma stoll_to_string:
  assumes "- (2 ^ 63) \<le> val" "val \<le> 2 ^ 63 - 1"
  shows "stoll (to_string val) = Inr val"
  using assms
  by (simp add: stoll_def subject_to_string to_string_nat_nonempty digits_value_to_string_nat)

lemma stoull_to_string:
  assumes "0 \<le> val" "val \<le> 2 ^ 64 - 1"
  shows "stoull (to_string val) = Inr val"
  using assms
  by (simp add: stoull_def subject_to_string to_string_nat_nonempty digits_value_to_string_nat)

lemma fromStr_signed_to_string:
  assumes "- (2 ^ 63) \<le> val" "val \<le> 2 ^ 63 - 1"
  shows "fromStr_signed T (to_string val) =
     (if fst (getLimits_signed T) \<le> val \<and> val \<le> snd (getLimits_signed T) then Inr val
      else Inl (OutOfRange (val mod 2 ^ 64) (fst (getLimits_signed T)) (snd (getLimits_signed T))))"
  by (auto simp: fromStr_signed_def stoll_to_string [OF assms] outOfRange_signed_def
      split: prod.splits)

lemma fromStr_unsigned_to_string:
  assumes "0 \<le> val" "val \<le> 2 ^ 64 - 1"
  shows "fromStr_unsigned T (to_string val) =
     (if val \<le> snd (getLimits_unsigned T) then Inr val
      else Inl (OutOfRange val 0 (snd (getLimits_unsigned T))))"
  using assms
  by (auto simp: fromStr_unsigned_def stoull_to_string [OF assms] outOfRange_unsigned_def
      getLimits_unsigned_def split: prod.splits)

lemma fromStr_int16_literals:
  "- 32768 \<le> val \<Longrightarrow> val \<le> 32767 \<Longrightarrow> fromStr_signed Int16 (to_string val) = Inr val"
  "32767 < val \<Longrightarrow> val \<le> 2 ^ 63 - 1
     \<Longrightarrow> fromStr_signed Int16 (to_string val) = Inl (OutOfRange val (- 32768) 32767)"
  "- (2 ^ 63) \<le> val \<Longrightarrow> val < - 32768
     \<Longrightarrow> fromStr_signed Int16 (to_string val) = Inl (OutOfRange (val + 2 ^ 64) (- 32768) 32767)"
proof -
  show "- 32768 \<le> val \<Longrightarrow> val \<le> 32767 \<Longrightarrow> fromStr_signed Int16 (to_string val) = Inr val"
    by (subst fromStr_signed_to_string) (simp_all add: getLimits_signed_def)
  show "32767 < val \<Longrightarrow> val \<le> 2 ^ 63 - 1
     \<Longrightarrow> fromStr_signed Int16 (to_string val) = Inl (OutOfRange val (- 32768) 32767)"
    by (subst fromStr_signed_to_string) (simp_all add: getLimits_signed_def)
  show "- (2 ^ 63) \<le> val \<Longrightarrow> val < - 32768
     \<Longrightarrow> fromStr_signed Int16 (to_string val) = Inl (OutOfRange (val + 2 ^ 64) (- 32768) 32767)"
  proof -
    assume a: "- (2 ^ 63) \<le> val" "val < - 32768"
    have "val mod 2 ^ 64 = (val + 2 ^ 64) mod 2 ^ 64" by simp
    also from a have "\<dots> = val + 2 ^ 64" by (intro mod_pos_pos_trivial) simp_all
    finally have "val mod 2 ^ 64 = val + 2 ^ 64" .
    with a show ?thesis
      by (subst fromStr_signed_to_string) (simp_all add: getLimits_signed_def)
  qed
qed

lemma fromStr_uint8_examples:
  "fromStr_unsigned UInt8 ''0'' = Inr 0"
  "fromStr_unsigned UInt8 ''255'' = Inr 255"
  "fromStr_unsigned UInt8 ''256'' = Inl (OutOfRange 256 0 255)"
  "fromStr_unsigned UInt8 ''-1'' = Inl (OutOfRange 18446744073709551615 0 255)"
  by (simp_all add: fromStr_unsigned_def stoull_def subject_def isspace_def isdigit_def
      digits_value_def digit_value_def getLimits_unsigned_def outOfRange_unsigned_def)

lemma fromStr_int16_examples:
  "fromStr_signed Int16 ''32767'' = Inr 32767"
  "fromStr_signed Int16 ''-32768'' = Inr (- 32768)"
  "fromStr_signed Int16 ''32768'' = Inl (OutOfRange 32768 (- 32768) 32767)"
  by (simp_all add: fromStr_signed_def stoll_def subject_def isspace_def isdigit_def
      digits_value_def digit_value_def getLimits_signed_def outOfRange_signed_def)

text \<open>
  Claim C4. The converters accept and reject as the claim says: \<open>fromStr_uint8_examples\<close>
  for \<^verbatim>\<open>uint8_t\<close> at "0", "255", "256" and "-1", \<open>fromStr_int16_literals\<close> for every
  decimal literal inside and outside the range of \<^verbatim>\<open>int16_t\<close>, and the error holds the
  minimum and maximum of the type. What it holds as the value is the value only when
  that is not negative: the signed converter hands its \<^verbatim>\<open>long long\<close> to a parameter of
  type \<^verbatim>\<open>uint64_t\<close>, so for the literal just below the range of \<^verbatim>\<open>int16_t\<close> the error
  holds \<open>2 ^ 64 - 32769\<close> in place of \<open>- 32769\<close>.
\<close>

theorem fromStr_int16_below_range:
  "fromStr_signed Int16 ''-32769'' = Inl (OutOfRange 18446744073709518847 (- 32768) 32767)"
  by (simp add: fromStr_signed_def stoll_def subject_def isspace_def isdigit_def
      digits_value_def digit_value_def getLimits_signed_def outOfRange_signed_def)

section \<open>Spec strings: trimming and the combined form\<close>

lemma trim_start_spaces:
  "\<forall>c\<in>set w. isspace c \<Longrightarrow> y \<noteq> [] \<Longrightarrow> \<not> isspace (hd y) \<Longrightarrow> i \<le> length w
     \<Longrightarrow> trim_start (w @ y) i = length w"
proof (induction "length w - i" arbitrary: i)
  case 0
  then have i: "i = length w" by simp
  from 0(3,4) have "\<not> isspace ((w @ y) ! length w)"
    by (simp add: nth_append hd_conv_nth)
  with i show ?case by (simp add: trim_start.simps)
next
  case (Suc n)
  then have lt: "i < length w" by simp
  with Suc(3) have "isspace ((w @ y) ! i)" by (simp add: nth_append)
  moreover from Suc(2) lt have "n = length w - (i + 1)" by simp
  moreover from lt have "i + 1 \<le> length w" by simp
  ultimately show ?case
    using Suc(1) [of "i + 1"] Suc(3,4,5) lt by (simp add: trim_start.simps)
qed

lemma trim_end_spaces:
  "\<forall>c\<in>set w. isspace c \<Longrightarrow> x \<noteq> [] \<Longrightarrow> \<not> isspace (last x) \<Longrightarrow> k \<le> length w
     \<Longrightarrow> trim_end (p @ x @ w) (length p) (length p + (length x - 1) + k)
         = length p + (length x - 1)"
proof (induction k)
  case 0
  have "(p @ x @ w) ! (length p + (length x - 1)) = last x"
    using 0(2) by (simp add: nth_append last_conv_nth)
  with 0(3) show ?case by (simp add: trim_end.simps)
next
  case (Suc k)
  from Suc(3) have "length x - 1 + Suc k - length x = k" 
    by (cases x) simp_all
  with Suc(3) have idx: "(p @ x @ w) ! (length p + (length x - 1) + Suc k) = w ! k"
    by (simp add: nth_append)
  from Suc(5) have "w ! k \<in> set w" by simp
  with Suc(2) have sp: "isspace (w ! k)" by blast
  have step: "length p + (length x - 1) + Suc k - 1 = length p + (length x - 1) + k" by simp
  have gt: "length p + (length x - 1) + Suc k > length p" by simp
  from Suc(5) have "k \<le> length w" by simp
  with Suc(1) [OF Suc(2,3,4)] have IH: "trim_end (p @ x @ w) (length p) (length p + (length x - 1) + k)
         = length p + (length x - 1)" by simp
  show ?case
    by (subst trim_end.simps) (simp only: gt idx sp step IH simp_thms if_True)
qed

lemma trim_padded:
  assumes w1: "\<forall>c\<in>set w1. isspace c" and w2: "\<forall>c\<in>set w2. isspace c"
    and x: "x \<noteq> []" "\<not> isspace (hd x)" "\<not> isspace (last x)"
  shows "trim (w1 @ x @ w2) = x"
proof -
  let ?str = "w1 @ x @ w2"
  have ne: "?str \<noteq> []" using x(1) by simp
  have hd': "\<not> isspace (hd (x @ w2))" using x(1,2) by simp
  have s: "trim_start ?str 0 = length w1"
    using trim_start_spaces [OF w1 _ hd', of 0] x(1) by simp
  have len: "length ?str - 1 = length w1 + (length x - 1) + length w2"
    using x(1) by (cases x) simp_all
  have e: "trim_end ?str (length w1) (length ?str - 1) = length w1 + (length x - 1)"
    unfolding len using trim_end_spaces [OF w2 x(1) x(3), of "length w2" w1] by simp
  have neq: "length w1 \<noteq> length ?str" using x(1) by simp
  have "trim ?str = substr ?str (length w1) (length w1 + (length x - 1) - length w1 + 1)"
    unfolding trim_def Let_def s e using ne neq by (simp only: if_False)
  also have "\<dots> = x" using x(1) by (cases x) (simp_all add: substr_def)
  finally show ?thesis .
qed

lemma trim_padded_right:
  "\<forall>c\<in>set w2. isspace c \<Longrightarrow> x \<noteq> [] \<Longrightarrow> \<not> isspace (hd x) \<Longrightarrow> \<not> isspace (last x)
     \<Longrightarrow> trim (x @ w2) = x"
  using trim_padded [of "[]" w2 x] by simp

lemma trim_padded_left:
  "\<forall>c\<in>set w1. isspace c \<Longrightarrow> x \<noteq> [] \<Longrightarrow> \<not> isspace (hd x) \<Longrightarrow> \<not> isspace (last x)
     \<Longrightarrow> trim (w1 @ x) = x"
  using trim_padded [of w1 "[]" x] by simp

lemma find_first:
  "ch \<notin> set a \<Longrightarrow> find (a @ ch # b) ch = Some (length a)"
  by (induction a) auto

lemma validateName_loop_ok:
  "\<forall>c\<in>set ls. validChar options c False \<Longrightarrow> (first \<Longrightarrow> ls \<noteq> [] \<and> validChar options (hd ls) True)
     \<Longrightarrow> validateName_loop options name first ls = Inr ()"
  by (induction ls arbitrary: first) auto

lemma validateName_ok:
  "n \<noteq> [] \<Longrightarrow> isalpha (hd n) \<Longrightarrow> \<forall>c\<in>set n. validChar options c False
     \<Longrightarrow> validateName options n = Inr ()"
  by (simp add: validateName_def validateName_loop_ok validChar_def)

lemma validChar_not_space:
  "validChar options c False \<Longrightarrow> \<not> isspace c \<and> c \<noteq> CHR '',''"
  by (auto simp: validChar_def isalnum_def isalpha_def isdigit_def isspace_def Let_def
      split: if_splits)

lemma isalpha_not_space: "isalpha c \<Longrightarrow> \<not> isspace c \<and> c \<noteq> CHR ''-''"
  by (auto simp: isalpha_def isspace_def Let_def)

lemma isspace_not_comma: "isspace c \<Longrightarrow> c \<noteq> CHR '',''"
  by (auto simp: isspace_def Let_def)

lemma dash_not_space: "\<not> isspace CHR ''-''"
  by (simp add: isspace_def)

lemma Option_validateName_combined:
  assumes limits: "shortNameLimit options = 3" "longNameLimit options = 100"
    and s: "s \<noteq> []" "isalpha (hd s)" "\<forall>c\<in>set s. validChar options c False" "length s \<le> 3"
    and l: "isalpha (hd l)" "\<forall>c\<in>set l. validChar options c False"
           "4 \<le> length l" "length l \<le> 100"
    and ws: "\<forall>c\<in>set w1. isspace c" "\<forall>c\<in>set w2. isspace c"
            "\<forall>c\<in>set w3. isspace c" "\<forall>c\<in>set w4. isspace c"
  shows "Option_validateName options (w1 @ ''-'' @ s @ w2 @ '','' @ w3 @ ''--'' @ l @ w4)
           = Inr (s, l)"
proof -
  let ?sh = "CHR ''-'' # s" and ?lo = "''--'' @ l"
  let ?X = "?sh @ w2 @ CHR '','' # w3 @ ?lo"
  let ?name = "w1 @ ''-'' @ s @ w2 @ '','' @ w3 @ ''--'' @ l @ w4"
  from l(3) have lne: "l \<noteq> []" by auto
  have last_s: "\<not> isspace (last s)" using s(1,3) validChar_not_space last_in_set by blast
  have last_l: "\<not> isspace (last l)" using lne l(2) validChar_not_space last_in_set by blast
  have name: "?name = w1 @ ?X @ w4" by simp
  have nameNe: "?name \<noteq> []" by simp
  have X: "trim ?name = ?X"
    unfolding name using ws(1,4) last_l lne dash_not_space
    by (intro trim_padded) simp_all
  have XNe: "?X \<noteq> []" by simp
  have nocomma: "CHR '','' \<notin> set (?sh @ w2)"
  proof -
    have "CHR '','' \<notin> set s" using s(3) validChar_not_space by blast
    moreover have "CHR '','' \<notin> set w2" using ws(2) isspace_not_comma by blast
    ultimately show ?thesis by simp
  qed
  have sep: "find ?X CHR '','' = Some (length (?sh @ w2))"
    using find_first [OF nocomma, of "w3 @ ?lo"] by simp
  have shortRaw: "substr ?X 0 (length (?sh @ w2)) = ?sh @ w2"
    by (simp add: substr_def)
  have longRaw: "drop (length (?sh @ w2) + 1) ?X = w3 @ ?lo"
    by simp
  have shortT: "trim (?sh @ w2) = ?sh"
    using ws(2) last_s s(1) dash_not_space by (intro trim_padded_right) simp_all
  have longT: "trim (w3 @ ?lo) = ?lo"
    using ws(3) last_l lne dash_not_space by (intro trim_padded_left) simp_all
  have vs: "validateName options s = Inr ()" using s by (intro validateName_ok)
  have vl: "validateName options l = Inr ()" using l lne by (intro validateName_ok)
  have zs: "validateSize options s True = Inr ()"
    using s(1,4) limits by (simp add: validateSize_def)
  have zl: "validateSize options l False = Inr ()"
    using l(3,4) lne limits by (simp add: validateSize_def)
  have strip: "starts_with ?lo ''--''" by (simp add: starts_with_def)
  show ?thesis
    unfolding Option_validateName_def Let_def X sep option.case shortRaw longRaw shortT longT
    using nameNe XNe strip vs vl zs zl by simp
qed

text \<open>
  Claim C6. Take a short half \<open>s\<close> that starts with a letter, has at most 3 characters
  and only characters the policy allows, and a long half \<open>l\<close> that starts with a
  letter, has 4 to 100 characters and only characters the policy allows. Under a policy
  with the default limits 3 and 100, \<open>createOption\<close> on the combined spec
  \<open>"-" s "," "--" l\<close>, with any white space before and after either half, succeeds, and
  the option's short name is \<open>"-" s\<close> and its long name \<open>"--" l\<close>.
\<close>

theorem createOption_combined:
  assumes limits: "shortNameLimit options = 3" "longNameLimit options = 100"
    and s: "s \<noteq> []" "isalpha (hd s)" "\<forall>c\<in>set s. validChar options c False" "length s \<le> 3"
    and l: "isalpha (hd l)" "\<forall>c\<in>set l. validChar options c False"
           "4 \<le> length l" "length l \<le> 100"
    and ws: "\<forall>c\<in>set w1. isspace c" "\<forall>c\<in>set w2. isspace c"
            "\<forall>c\<in>set w3. isspace c" "\<forall>c\<in>set w4. isspace c"
  shows "createOption options (w1 @ ''-'' @ s @ w2 @ '','' @ w3 @ ''--'' @ l @ w4) var
           = Inr \<lparr>needsValue = \<not> is_bool var, shortNameOf = ''-'' @ s,
                   longNameOf = ''--'' @ l, valuePtr = var\<rparr>"
proof -
  from l(3) have lne: "l \<noteq> []" by auto
  show ?thesis
    unfolding createOption_def Option_validateName_combined [OF assms]
    using s(1) lne by simp
qed

theorem createOption_combined_witness:
  "createOption defualtConfig '' -v , --verbose '' (BoolVar 0 :: unit var)
     = Inr \<lparr>needsValue = False, shortNameOf = ''-v'', longNameOf = ''--verbose'',
             valuePtr = BoolVar 0\<rparr>"
proof -
  have cfg: "shortNameLimit defualtConfig = 3" "longNameLimit defualtConfig = 100"
    by (simp_all add: defualtConfig_def defaultShortLimit_def defaultLongLimit_def)
  have s: "''v'' \<noteq> []" "isalpha (hd ''v'')" "\<forall>c\<in>set ''v''. validChar defualtConfig c False"
    "length ''v'' \<le> 3"
    by (simp_all add: validChar_def isalpha_def isalnum_def)
  have l: "isalpha (hd ''verbose'')" "\<forall>c\<in>set ''verbose''. validChar defualtConfig c False"
    "4 \<le> length ''verbose''" "length ''verbose'' \<le> 100"
    by (simp_all add: validChar_def isalpha_def isalnum_def)
  have ws: "\<forall>c\<in>set '' ''. isspace c" by (simp add: isspace_def)
  show ?thesis
    using createOption_combined [OF cfg s l ws ws ws ws, of "BoolVar 0 :: unit var"]
    by simp
qed

lemma createOption_wellFormed:
  "createOption options name var = Inr opt \<Longrightarrow> wellFormed opt"
  by (auto simp: createOption_def wellFormed_def split: sum.splits prod.splits)

section \<open>The example registrations\<close>

lemmas demo_defs = demo_store_def number_option_def name_option_def verbose_option_def
  number_command_def name_command_def flag_command_def build_command_def demo_app_def

lemmas demo_eval = parseArgs_def parseCommand_def buildReconMaps_def processOption_def
  processCommand_def parseValue_def buildDuplicateArgNames_def fromStr_bool_def
  fromStr_string_def fromStr_signed_def stoll_def subject_def isspace_def isdigit_def
  digits_value_def digit_value_def getLimits_signed_def Let_def

text \<open>The examples are what the factories return under the default policy.\<close>

lemma demo_created:
  "createOption defualtConfig ''-n,--number'' (SignedVar Int32 0) = Inr number_option"
  "createOption defualtConfig ''--name'' (StringVar 0) = Inr name_option"
  "createOption defualtConfig ''-v,--verbose'' (BoolVar 0) = Inr verbose_option"
  "createCommand defualtConfig ''build'' = Inr build_command"
  by (simp_all add: createOption_def Option_validateName_def createCommand_def trim_def
      trim_start.simps trim_end.simps substr_def starts_with_def isspace_def
      validateName_def validateSize_def validChar_def isalpha_def isalnum_def isdigit_def
      defualtConfig_def defaultShortLimit_def defaultLongLimit_def demo_defs Let_def)

lemma demo_app_built:
  "addOption defualtConfig createApp ''--name'' (StringVar 0)
     = Inr \<lparr>appOptions = [name_option], commands = []\<rparr>"
  "addOption defualtConfig \<lparr>appOptions = [name_option], commands = []\<rparr> ''-v,--verbose'' (BoolVar 0)
     = Inr \<lparr>appOptions = [name_option, verbose_option], commands = []\<rparr>"
  "addCommand defualtConfig \<lparr>appOptions = [name_option, verbose_option], commands = []\<rparr>
       ''build'' 1
     = Inr demo_app"
  by (simp_all add: addOption_def addCommand_def createApp_def demo_created demo_app_def)

section \<open>The walks: what they write and how they split at a token\<close>

text \<open>
  The loop of \<^verbatim>\<open>parseCommand\<close> and the loop of \<^verbatim>\<open>Application::parse\<close> treat an option
  token in the same way; the lemmas are proved for \<open>globalWalk\<close> and carried over to
  \<open>parseCommand_loop\<close>, which is \<open>globalWalk\<close> with no command registered.
\<close>

lemma unchanged_outside_refl: "unchanged_outside L st st"
  by (simp add: unchanged_outside_def)

lemma unchanged_outside_trans:
  assumes "unchanged_outside L1 st st1" "unchanged_outside L2 st1 st2" "L1 \<union> L2 \<subseteq> L"
  shows "unchanged_outside L st st2"
proof -
  have n: "l \<notin> L1 \<and> l \<notin> L2" if "l \<notin> L" for l using assms(3) that by blast
  show ?thesis
    using assms(1,2) unfolding unchanged_outside_def by (simp add: n)
qed

lemma unchanged_outside_bool:
  "unchanged_outside (targets opts matched) st st' \<Longrightarrow> BoolLoc p \<notin> targets opts UNIV
     \<Longrightarrow> bools st' p = bools st p"
proof -
  assume u: "unchanged_outside (targets opts matched) st st'" and n: "BoolLoc p \<notin> targets opts UNIV"
  have "targets opts matched \<subseteq> targets opts UNIV" unfolding targets_def by blast
  with n have "BoolLoc p \<notin> targets opts matched" by blast
  with u show ?thesis by (simp add: unchanged_outside_def)
qed

lemma parseValue_frame:
  "parseValue opt str st = Inr st' \<Longrightarrow> unchanged_outside {loc_of (valuePtr opt)} st st'"
  by (cases "valuePtr opt")
     (auto simp: parseValue_def unchanged_outside_def split: sum.splits)

lemma parseValue_true_bools:
  "parseValue opt ''true'' st = Inr st' \<Longrightarrow> bools st' a = bools st a \<or> bools st' a = True"
  by (cases "valuePtr opt")
     (auto simp: parseValue_def fromStr_bool_def split: sum.splits if_splits)

lemma parseValue_value_bools:
  "\<not> is_bool (valuePtr opt) \<Longrightarrow> parseValue opt str st = Inr st' \<Longrightarrow> bools st' = bools st"
  by (cases "valuePtr opt")
     (auto simp: parseValue_def split: sum.splits)

lemma processOption_Inr:
  assumes "processOption opts rest optionMap optIdx parsedOptions arg st = Inr (n, P', st')"
  shows "optIdx \<notin> parsedOptions \<and> optIdx < length opts \<and> P' = insert optIdx parsedOptions
         \<and> n \<le> length rest
         \<and> unchanged_outside {loc_of (valuePtr (opts ! optIdx))} st st'
         \<and> (if needsValue (opts ! optIdx)
             then n = 1 \<and> rest \<noteq> [] \<and> parseValue (opts ! optIdx) (hd rest) st = Inr st'
             else n = 0 \<and> parseValue (opts ! optIdx) ''true'' st = Inr st')"
  using assms
  by (auto simp: processOption_def parseValue_frame split: if_splits list.splits sum.splits)

lemma processOption_same_head:
  assumes "processOption opts rest optionMap optIdx parsedOptions arg st = Inr (n, P', st')"
    and "take n rest2 = take n rest" and "n \<le> length rest2"
  shows "processOption opts rest2 optionMap optIdx parsedOptions arg st = Inr (n, P', st')"
proof -
  note f = processOption_Inr [OF assms(1)]
  show ?thesis
  proof (cases "needsValue (opts ! optIdx)")
    case True
    with f have n: "n = 1" and ne: "rest \<noteq> []" by simp_all
    from ne obtain v r where rest: "rest = v # r" by (cases rest) auto
    from n assms(3) obtain v2 r2 where rest2: "rest2 = v2 # r2" by (cases rest2) auto
    from assms(2) n rest rest2 have "v2 = v" by simp
    with assms(1) rest rest2 True show ?thesis
      by (simp add: processOption_def split: if_splits)
  next
    case False
    with assms(1) show ?thesis
      by (simp add: processOption_def split: if_splits)
  qed
qed

lemma processOption_bools:
  assumes "processOption opts rest optionMap optIdx parsedOptions arg st = Inr (n, P', st')"
    and "wellFormed (opts ! optIdx)"
  shows "bools st' a = bools st a \<or> bools st' a = True"
proof (cases "needsValue (opts ! optIdx)")
  case True
  with assms(2) have "\<not> is_bool (valuePtr (opts ! optIdx))" by (simp add: wellFormed_def)
  moreover from processOption_Inr [OF assms(1)] True
  have "parseValue (opts ! optIdx) (hd rest) st = Inr st'" by simp
  ultimately show ?thesis using parseValue_value_bools by fastforce
next
  case False
  with processOption_Inr [OF assms(1)]
  have "parseValue (opts ! optIdx) ''true'' st = Inr st'" by simp
  then show ?thesis by (rule parseValue_true_bools)
qed

text \<open>One step of the walk at an option token that has not been matched yet.\<close>

lemma processOption_fresh:
  assumes "optIdx \<notin> parsedOptions" "optIdx < length opts"
  shows "processOption opts rest optionMap optIdx parsedOptions arg st =
     (if needsValue (opts ! optIdx) then
        (case rest of
           [] \<Rightarrow> Inl (InsufficientValues arg)
         | next # rest' \<Rightarrow>
             (case parseValue (opts ! optIdx) next st of
                Inl e \<Rightarrow> Inl e
              | Inr st' \<Rightarrow> Inr (1, insert optIdx parsedOptions, st')))
      else
        (case parseValue (opts ! optIdx) ''true'' st of
           Inl e \<Rightarrow> Inl e
         | Inr st' \<Rightarrow> Inr (0, insert optIdx parsedOptions, st')))"
  using assms by (simp add: processOption_def)

lemma globalWalk_frame:
  "walk = globalWalk opts optionMap commandMap args parsedOptions st
     \<Longrightarrow> parsedOptions \<subseteq> walk_parsed walk
         \<and> unchanged_outside (targets opts (walk_parsed walk - parsedOptions)) st (walk_store walk)"
proof (induction opts optionMap commandMap args parsedOptions st arbitrary: walk
       rule: globalWalk.induct)
  case (1 opts optionMap commandMap parsedOptions st)
  then show ?case by (simp add: unchanged_outside_refl)
next
  case (2 opts optionMap commandMap arg rest parsedOptions st)
  show ?case
  proof (cases "map_of commandMap arg")
    case (Some cmdIdx)
    with 2(2) show ?thesis by (simp add: unchanged_outside_refl)
  next
    case None
    note noCmd = this
    show ?thesis
    proof (cases "map_of optionMap arg")
      case None
      with noCmd 2(2) show ?thesis by (simp add: unchanged_outside_refl)
    next
      case (Some optIdx)
      show ?thesis
      proof (cases "processOption opts rest optionMap optIdx parsedOptions arg st")
        case (Inl e)
        with noCmd Some 2(2) show ?thesis by (simp add: unchanged_outside_refl)
      next
        case (Inr res)
        obtain n P1 st1 where res: "res = (n, P1, st1)" by (cases res) auto
        note po = processOption_Inr [OF Inr [unfolded res]]
        have w: "walk = globalWalk opts optionMap commandMap (drop n rest) P1 st1"
          using 2(2) noCmd Some Inr res by simp
        from 2(1) [OF noCmd Some Inr [unfolded res] refl refl w]
        have IH: "P1 \<subseteq> walk_parsed walk"
          "unchanged_outside (targets opts (walk_parsed walk - P1)) st1 (walk_store walk)"
          by simp_all
        from po have P1: "P1 = insert optIdx parsedOptions" and fresh: "optIdx \<notin> parsedOptions"
          and inr: "optIdx < length opts"
          and fr: "unchanged_outside {loc_of (valuePtr (opts ! optIdx))} st st1"
          by simp_all
        have sub: "parsedOptions \<subseteq> walk_parsed walk" using IH(1) P1 by blast
        have "optIdx \<in> walk_parsed walk - parsedOptions" using IH(1) P1 fresh by blast
        then have a: "{loc_of (valuePtr (opts ! optIdx))}
            \<subseteq> targets opts (walk_parsed walk - parsedOptions)"
          using inr unfolding targets_def by blast
        have b: "targets opts (walk_parsed walk - P1)
            \<subseteq> targets opts (walk_parsed walk - parsedOptions)"
          using P1 unfolding targets_def by blast
        from a b have "{loc_of (valuePtr (opts ! optIdx))} \<union> targets opts (walk_parsed walk - P1)
            \<subseteq> targets opts (walk_parsed walk - parsedOptions)" by blast
        from unchanged_outside_trans [OF fr IH(2) this] sub show ?thesis by simp
      qed
    qed
  qed
qed

lemma globalWalk_bools:
  "walk = globalWalk opts optionMap commandMap args parsedOptions st
     \<Longrightarrow> \<forall>opt\<in>set opts. wellFormed opt
     \<Longrightarrow> bools (walk_store walk) a = bools st a \<or> bools (walk_store walk) a = True"
proof (induction opts optionMap commandMap args parsedOptions st arbitrary: walk
       rule: globalWalk.induct)
  case (1 opts optionMap commandMap parsedOptions st)
  then show ?case by simp
next
  case (2 opts optionMap commandMap arg rest parsedOptions st)
  show ?case
  proof (cases "map_of commandMap arg")
    case (Some cmdIdx)
    with 2(2) show ?thesis by simp
  next
    case None
    note noCmd = this
    show ?thesis
    proof (cases "map_of optionMap arg")
      case None
      with noCmd 2(2) show ?thesis by simp
    next
      case (Some optIdx)
      show ?thesis
      proof (cases "processOption opts rest optionMap optIdx parsedOptions arg st")
        case (Inl e)
        with noCmd Some 2(2) show ?thesis by simp
      next
        case (Inr res)
        obtain n P1 st1 where res: "res = (n, P1, st1)" by (cases res) auto
        note po = processOption_Inr [OF Inr [unfolded res]]
        have w: "walk = globalWalk opts optionMap commandMap (drop n rest) P1 st1"
          using 2(2) noCmd Some Inr res by simp
        from 2(1) [OF noCmd Some Inr [unfolded res] refl refl w 2(3)]
        have IH: "bools (walk_store walk) a = bools st1 a \<or> bools (walk_store walk) a = True" .
        from po have "optIdx < length opts" by simp
        with 2(3) have "wellFormed (opts ! optIdx)" by simp
        from processOption_bools [OF Inr [unfolded res] this, of a] IH
        show ?thesis by auto
      qed
    qed
  qed
qed

lemma globalWalk_append:
  "globalWalk opts optionMap commandMap pre parsedOptions st = AtEnd P1 st1
     \<Longrightarrow> globalWalk opts optionMap commandMap (pre @ rest) parsedOptions st
         = globalWalk opts optionMap commandMap rest P1 st1"
proof (induction opts optionMap commandMap pre parsedOptions st
       rule: globalWalk.induct)
  case (1 opts optionMap commandMap parsedOptions st)
  then show ?case by simp
next
  case (2 opts optionMap commandMap arg pre' parsedOptions st)
  show ?case
  proof (cases "map_of commandMap arg")
    case (Some cmdIdx)
    with 2(2) show ?thesis by simp
  next
    case None
    note noCmd = this
    show ?thesis
    proof (cases "map_of optionMap arg")
      case None
      with noCmd 2(2) show ?thesis by simp
    next
      case (Some optIdx)
      show ?thesis
      proof (cases "processOption opts pre' optionMap optIdx parsedOptions arg st")
        case (Inl e)
        with noCmd Some 2(2) show ?thesis by simp
      next
        case (Inr res)
        obtain n P2 st2 where res: "res = (n, P2, st2)" by (cases res) auto
        note po = processOption_Inr [OF Inr [unfolded res]]
        then have n: "n \<le> length pre'" by simp
        have w: "globalWalk opts optionMap commandMap (drop n pre') P2 st2 = AtEnd P1 st1"
          using 2(2) noCmd Some Inr res by simp
        have po2: "processOption opts (pre' @ rest) optionMap optIdx parsedOptions arg st
            = Inr (n, P2, st2)"
          using processOption_same_head [OF Inr [unfolded res], of "pre' @ rest"] n by simp
        from 2(1) [OF noCmd Some Inr [unfolded res] refl refl w]
        have "globalWalk opts optionMap commandMap (drop n pre' @ rest) P2 st2
            = globalWalk opts optionMap commandMap rest P1 st1" .
        with noCmd Some po2 n show ?thesis by simp
      qed
    qed
  qed
qed

lemma globalWalk_decompose:
  "globalWalk opts optionMap commandMap args parsedOptions st = AtCommand cmdIdx cmdArgs P1 st1
     \<Longrightarrow> \<exists>pre arg. args = pre @ arg # cmdArgs \<and> map_of commandMap arg = Some cmdIdx
           \<and> globalWalk opts optionMap commandMap pre parsedOptions st = AtEnd P1 st1"
proof (induction opts optionMap commandMap args parsedOptions st
       rule: globalWalk.induct)
  case (1 opts optionMap commandMap parsedOptions st)
  then show ?case by simp
next
  case (2 opts optionMap commandMap arg rest parsedOptions st)
  show ?case
  proof (cases "map_of commandMap arg")
    case (Some c)
    with 2(2) have "c = cmdIdx" "rest = cmdArgs" "P1 = parsedOptions" "st1 = st" by simp_all
    with Some have "arg # rest = [] @ arg # cmdArgs \<and> map_of commandMap arg = Some cmdIdx
        \<and> globalWalk opts optionMap commandMap [] parsedOptions st = AtEnd P1 st1" by simp
    then show ?thesis by blast
  next
    case None
    note noCmd = this
    show ?thesis
    proof (cases "map_of optionMap arg")
      case None
      with noCmd 2(2) show ?thesis by simp
    next
      case (Some optIdx)
      show ?thesis
      proof (cases "processOption opts rest optionMap optIdx parsedOptions arg st")
        case (Inl e)
        with noCmd Some 2(2) show ?thesis by simp
      next
        case (Inr res)
        obtain n P2 st2 where res: "res = (n, P2, st2)" by (cases res) auto
        note po = processOption_Inr [OF Inr [unfolded res]]
        then have n: "n \<le> length rest" by simp
        have w: "globalWalk opts optionMap commandMap (drop n rest) P2 st2
            = AtCommand cmdIdx cmdArgs P1 st1"
          using 2(2) noCmd Some Inr res by simp
        from 2(1) [OF noCmd Some Inr [unfolded res] refl refl w]
        obtain pre tok where d: "drop n rest = pre @ tok # cmdArgs"
          "map_of commandMap tok = Some cmdIdx"
          "globalWalk opts optionMap commandMap pre P2 st2 = AtEnd P1 st1" by blast
        let ?pre = "arg # take n rest @ pre"
        have split: "arg # rest = ?pre @ tok # cmdArgs"
          using d(1) append_take_drop_id [of n rest] by simp
        have po2: "processOption opts (take n rest @ pre) optionMap optIdx parsedOptions arg st
            = Inr (n, P2, st2)"
          using processOption_same_head [OF Inr [unfolded res], of "take n rest @ pre"] n by simp
        have "globalWalk opts optionMap commandMap ?pre parsedOptions st = AtEnd P1 st1"
          using noCmd Some po2 n d(3) by simp
        with split d(2) show ?thesis by blast
      qed
    qed
  qed
qed

lemma globalWalk_not_AtCommand:
  "globalWalk opts nameMap [] args parsed st \<noteq> AtCommand c rest P st'"
  by (induction opts nameMap "[] :: std_map" args parsed st rule: globalWalk.induct)
     (auto split: option.splits sum.splits)

lemma parseCommand_loop_walk:
  "parseCommand_loop opts nameMap args parsed st =
     (case globalWalk opts nameMap [] args parsed st of
        Raised e P st' \<Rightarrow> (Some e, P, st')
      | AtEnd P st' \<Rightarrow> (None, P, st')
      | AtCommand c rest P st' \<Rightarrow> (None, P, st'))"
proof (induction opts nameMap args parsed st rule: parseCommand_loop.induct)
  case (1 opts nameMap parsed st)
  show ?case by simp
next
  case (2 opts nameMap arg rest parsed st)
  show ?case
  proof (cases "map_of nameMap arg")
    case None
    then show ?thesis by simp
  next
    case (Some argIdx)
    show ?thesis
      using Some 2
      by (auto simp: processOption_def split: list.splits sum.splits)
  qed
qed

lemma parseCommand_loop_None:
  "parseCommand_loop opts nameMap args parsed st = (None, matched, st')
     \<longleftrightarrow> globalWalk opts nameMap [] args parsed st = AtEnd matched st'"
  by (cases "globalWalk opts nameMap [] args parsed st")
     (simp_all add: parseCommand_loop_walk globalWalk_not_AtCommand)

lemma parseCommand_walk:
  "parseCommand cmd args st =
     (case globalWalk (cmdOptions cmd) (nameMapOf cmd) [] args {} st of
        Raised e matched st' \<Rightarrow> (Some e, st')
      | AtEnd matched st' \<Rightarrow> (None, st')
      | AtCommand c rest matched st' \<Rightarrow> (None, st'))"
  by (simp add: parseCommand_def parseCommand_loop_walk split: walk.splits)

lemma parseArgs_walk:
  "parseArgs app args st =
     (case globalWalk (appOptions app) (optionMapOf app) (commandMapOf app) args {} st of
        Raised e matched st' \<Rightarrow> (Some e, st')
      | AtEnd matched st' \<Rightarrow> (None, st')
      | AtCommand cmdIdx cmdArgs matched st' \<Rightarrow> processCommand app cmdIdx cmdArgs st')"
  by (simp add: parseArgs_def buildReconMaps_def)

lemma processCommand_unfold:
  "cmdIdx < length (commands app) \<Longrightarrow>
   processCommand app cmdIdx cmdArgs st =
     (case parseCommand (fst (commands app ! cmdIdx)) cmdArgs st of
        (Some e, st') \<Rightarrow> (Some e, st')
      | (None, st') \<Rightarrow> (None, st'\<lparr>bools := (bools st')(snd (commands app ! cmdIdx) := True)\<rparr>))"
  by (cases "commands app ! cmdIdx")
     (auto simp: processCommand_def split: prod.splits option.splits)

lemma buildArray_tokens:
  "buildArray (1 + int (length args)) (prog # args) = Inr args"
proof -
  have "[1..<Suc (length args)] = map Suc [0..<length args]"
    by (simp add: map_Suc_upt)
  then have "map (\<lambda>idx. (prog # args) ! idx) [1..<Suc (length args)]
      = map (\<lambda>idx. args ! idx) [0..<length args]"
    by (simp add: comp_def)
  also have "\<dots> = args" by (rule map_nth)
  finally show ?thesis by (simp add: buildArray_def nat_add_distrib)
qed

lemma parse_tokens:
  "parse app (1 + int (length args)) (prog # args) st = parseArgs app args st"
  by (simp add: parse_def buildArray_tokens)

section \<open>The name maps and single steps of the walk\<close>

lemma map_set_lookup:
  "map_of (map_set m k v) k' = (if k' = k then Some v else map_of m k')"
  by (induction m k v rule: map_set.induct) auto

lemma buildNameMap_lookup:
  "map_of (buildNameMap opts i m) name = Some k
     \<Longrightarrow> map_of m name = Some k
         \<or> (i \<le> k \<and> k < i + length opts \<and> name \<noteq> []
            \<and> (name = shortNameOf (opts ! (k - i)) \<or> name = longNameOf (opts ! (k - i))))"
proof (induction opts arbitrary: i m)
  case Nil
  then show ?case by simp
next
  case (Cons opt opts)
  let ?m1 = "if shortNameOf opt \<noteq> [] then map_set m (shortNameOf opt) i else m"
  let ?m2 = "if longNameOf opt \<noteq> [] then map_set ?m1 (longNameOf opt) i else ?m1"
  from Cons.prems have "map_of (buildNameMap opts (i + 1) ?m2) name = Some k"
    by (simp add: Let_def)
  from Cons.IH [OF this]
  consider (old) "map_of ?m2 name = Some k"
    | (later) "i + 1 \<le> k" "k < i + 1 + length opts" "name \<noteq> []"
        "name = shortNameOf (opts ! (k - (i + 1))) \<or> name = longNameOf (opts ! (k - (i + 1)))"
    by blast
  then show ?case
  proof cases
    case old
    then have "map_of m name = Some k
        \<or> (k = i \<and> name \<noteq> [] \<and> (name = shortNameOf opt \<or> name = longNameOf opt))"
      by (auto simp: map_set_lookup split: if_splits)
    then show ?thesis by auto
  next
    case later
    from later(1) have "(opt # opts) ! (k - i) = opts ! (k - (i + 1))"
      by (simp add: nth_Cons')
    with later show ?thesis by auto
  qed
qed

lemma buildCommandMap_lookup:
  "map_of (buildCommandMap cmds i m) name = Some k
     \<Longrightarrow> map_of m name = Some k
         \<or> (i \<le> k \<and> k < i + length cmds \<and> name = cmdName (fst (cmds ! (k - i))))"
proof (induction cmds arbitrary: i m)
  case Nil
  then show ?case by simp
next
  case (Cons cmd cmds)
  from Cons.prems
  have "map_of (buildCommandMap cmds (i + 1) (map_set m (cmdName (fst cmd)) i)) name = Some k"
    by simp
  from Cons.IH [OF this]
  consider (old) "map_of (map_set m (cmdName (fst cmd)) i) name = Some k"
    | (later) "i + 1 \<le> k" "k < i + 1 + length cmds"
        "name = cmdName (fst (cmds ! (k - (i + 1))))"
    by blast
  then show ?case
  proof cases
    case old
    then have "map_of m name = Some k \<or> (k = i \<and> name = cmdName (fst cmd))"
      by (auto simp: map_set_lookup split: if_splits)
    then show ?thesis by auto
  next
    case later
    from later(1) have "(cmd # cmds) ! (k - i) = cmds ! (k - (i + 1))"
      by (simp add: nth_Cons')
    with later show ?thesis by auto
  qed
qed

lemma nameMap_in_range:
  "map_of (buildNameMap opts 0 []) name = Some k \<Longrightarrow> k < length opts"
  using buildNameMap_lookup [of opts 0 "[]" name k] by simp

lemma commandMap_in_range:
  "map_of (buildCommandMap cmds 0 []) name = Some k \<Longrightarrow> k < length cmds"
  using buildCommandMap_lookup [of cmds 0 "[]" name k] by simp

lemma commandMap_name:
  "map_of (buildCommandMap cmds 0 []) name = Some k \<Longrightarrow> name = cmdName (fst (cmds ! k))"
  using buildCommandMap_lookup [of cmds 0 "[]" name k] by simp

lemma buildCommandMap_keeps:
  "map_of m name = Some v
     \<Longrightarrow> \<exists>k. map_of (buildCommandMap cmds i m) name = Some k \<and> (k = v \<or> i \<le> k)"
proof (induction cmds arbitrary: i m v)
  case Nil
  then show ?case by simp
next
  case (Cons cmd cmds)
  let ?m = "map_set m (cmdName (fst cmd)) i"
  from Cons.prems have "map_of ?m name = Some (if name = cmdName (fst cmd) then i else v)"
    by (simp add: map_set_lookup)
  from Cons.IH [OF this, of "i + 1"]
  obtain k where "map_of (buildCommandMap cmds (i + 1) ?m) name = Some k"
    and "k = (if name = cmdName (fst cmd) then i else v) \<or> i + 1 \<le> k" by blast
  then show ?case by (auto split: if_splits)
qed

lemma buildCommandMap_registered:
  "j < length cmds
     \<Longrightarrow> \<exists>k. map_of (buildCommandMap cmds i m) (cmdName (fst (cmds ! j))) = Some k \<and> i + j \<le> k"
proof (induction cmds arbitrary: i m j)
  case Nil
  then show ?case by simp
next
  case (Cons cmd cmds)
  let ?m = "map_set m (cmdName (fst cmd)) i"
  show ?case
  proof (cases j)
    case 0
    have "map_of ?m (cmdName (fst cmd)) = Some i" by (simp add: map_set_lookup)
    from buildCommandMap_keeps [OF this, of cmds "i + 1"] 0 show ?thesis by auto
  next
    case (Suc j')
    with Cons.prems have "j' < length cmds" by simp
    from Cons.IH [OF this, of "i + 1" ?m] Suc show ?thesis by auto
  qed
qed

text \<open>
  Every registered command name is a key of the command map; the index it holds is
  that of the command registered last under the name.
\<close>

lemma commandMap_registered:
  assumes "c < length cmds"
  shows "\<exists>k. map_of (buildCommandMap cmds 0 []) (cmdName (fst (cmds ! c))) = Some k
           \<and> c \<le> k \<and> k < length cmds \<and> cmdName (fst (cmds ! k)) = cmdName (fst (cmds ! c))"
proof -
  from buildCommandMap_registered [OF assms, of 0 "[]"]
  obtain k where k: "map_of (buildCommandMap cmds 0 []) (cmdName (fst (cmds ! c))) = Some k"
    and le: "c \<le> k" by auto
  from commandMap_in_range [OF k] commandMap_name [OF k] k le show ?thesis by simp
qed

lemma commandMap_last:
  assumes "map_of (buildCommandMap cmds 0 []) name = Some k"
    and "j < length cmds" "cmdName (fst (cmds ! j)) = name"
  shows "j \<le> k"
  using commandMap_registered [OF assms(2)] assms(1,3) by auto

lemma commandMap_unique:
  assumes "c < length cmds"
    and "\<forall>j<length cmds. cmdName (fst (cmds ! j)) = cmdName (fst (cmds ! c)) \<longrightarrow> j = c"
  shows "map_of (buildCommandMap cmds 0 []) (cmdName (fst (cmds ! c))) = Some c"
  using commandMap_registered [OF assms(1)] assms(2) by auto

lemma walk_command_in_range:
  assumes "globalWalk opts optionMap (buildCommandMap cmds 0 []) args parsed st
             = AtCommand cmdIdx cmdArgs matched st1"
  shows "cmdIdx < length cmds"
proof -
  from globalWalk_decompose [OF assms]
  obtain tok where "map_of (buildCommandMap cmds 0 []) tok = Some cmdIdx" by blast
  then show ?thesis by (rule commandMap_in_range)
qed

lemma globalWalk_value_last:
  assumes "map_of commandMap arg = None" "map_of optionMap arg = Some k"
    "k \<notin> matched" "k < length opts" "needsValue (opts ! k)"
  shows "globalWalk opts optionMap commandMap [arg] matched st
           = Raised (InsufficientValues arg) matched st"
  using assms by (simp add: processOption_fresh)

lemma globalWalk_value_next:
  assumes "map_of commandMap arg = None" "map_of optionMap arg = Some k"
    "k \<notin> matched" "k < length opts" "needsValue (opts ! k)"
  shows "globalWalk opts optionMap commandMap (arg # next # rest) matched st
           = (case parseValue (opts ! k) next st of
                Inl e \<Rightarrow> Raised e matched st
              | Inr st' \<Rightarrow> globalWalk opts optionMap commandMap rest (insert k matched) st')"
  using assms by (simp add: processOption_fresh split: sum.splits)

lemma globalWalk_flag:
  assumes "map_of commandMap arg = None" "map_of optionMap arg = Some k"
    "k \<notin> matched" "k < length opts" "\<not> needsValue (opts ! k)"
  shows "globalWalk opts optionMap commandMap (arg # rest) matched st
           = (case parseValue (opts ! k) ''true'' st of
                Inl e \<Rightarrow> Raised e matched st
              | Inr st' \<Rightarrow> globalWalk opts optionMap commandMap rest (insert k matched) st')"
  using assms by (simp add: processOption_fresh split: sum.splits)

lemma globalWalk_duplicate:
  assumes "map_of commandMap arg = None" "map_of optionMap arg = Some k" "k \<in> matched"
  shows "globalWalk opts optionMap commandMap (arg # rest) matched st
           = Raised (MultiArg (buildDuplicateArgNames optionMap k)) matched st"
  using assms by (simp add: processOption_def)

text \<open>After a token has been matched, its index stays in the set of matched indices.\<close>

lemma globalWalk_first_matched:
  assumes "globalWalk opts optionMap commandMap (arg # rest) matched st = AtEnd matched' st'"
    and "map_of optionMap arg = Some k"
  shows "k \<in> matched'"
proof -
  from assms(1) have noCmd: "map_of commandMap arg = None"
    by (cases "map_of commandMap arg") simp_all
  from assms(1) noCmd assms(2)
  obtain n P1 st1 where po: "processOption opts rest optionMap k matched arg st = Inr (n, P1, st1)"
    and w: "globalWalk opts optionMap commandMap (drop n rest) P1 st1 = AtEnd matched' st'"
    by (cases "processOption opts rest optionMap k matched arg st") auto
  from processOption_Inr [OF po] have "k \<in> P1" by simp
  moreover from globalWalk_frame [OF w [symmetric]] have "P1 \<subseteq> matched'" by simp
  ultimately show ?thesis by blast
qed

lemma globalWalk_matched_resolved:
  "walk = globalWalk opts optionMap commandMap args matched st
     \<Longrightarrow> walk_parsed walk \<subseteq> matched \<union> {k. \<exists>t\<in>set args. map_of optionMap t = Some k}"
proof (induction opts optionMap commandMap args matched st arbitrary: walk
       rule: globalWalk.induct)
  case (1 opts optionMap commandMap parsedOptions st)
  then show ?case by simp
next
  case (2 opts optionMap commandMap arg rest parsedOptions st)
  show ?case
  proof (cases "map_of commandMap arg")
    case (Some cmdIdx)
    with 2(2) show ?thesis by simp
  next
    case None
    note noCmd = this
    show ?thesis
    proof (cases "map_of optionMap arg")
      case None
      with noCmd 2(2) show ?thesis by simp
    next
      case (Some optIdx)
      show ?thesis
      proof (cases "processOption opts rest optionMap optIdx parsedOptions arg st")
        case (Inl e)
        with noCmd Some 2(2) show ?thesis by simp
      next
        case (Inr res)
        obtain n P1 st1 where res: "res = (n, P1, st1)" by (cases res) auto
        note po = processOption_Inr [OF Inr [unfolded res]]
        have w: "walk = globalWalk opts optionMap commandMap (drop n rest) P1 st1"
          using 2(2) noCmd Some Inr res by simp
        from 2(1) [OF noCmd Some Inr [unfolded res] refl refl w]
        have IH: "walk_parsed walk \<subseteq> P1 \<union> {k. \<exists>t\<in>set (drop n rest). map_of optionMap t = Some k}" .
        have "set (drop n rest) \<subseteq> set rest" by (rule set_drop_subset)
        with IH po Some show ?thesis by auto
      qed
    qed
  qed
qed

lemma walk_value_last:
  assumes "globalWalk opts optionMap commandMap pre parsed st = AtEnd matched st1"
    and "map_of commandMap arg = None" "map_of optionMap arg = Some k"
    and "k \<notin> matched" "k < length opts" "needsValue (opts ! k)"
  shows "globalWalk opts optionMap commandMap (pre @ [arg]) parsed st
           = Raised (InsufficientValues arg) matched st1"
  using globalWalk_append [OF assms(1), of "[arg]"] globalWalk_value_last [OF assms(2-6)]
  by simp

lemma walk_value_next:
  assumes "globalWalk opts optionMap commandMap pre parsed st = AtEnd matched st1"
    and "map_of commandMap arg = None" "map_of optionMap arg = Some k"
    and "k \<notin> matched" "k < length opts" "needsValue (opts ! k)"
  shows "globalWalk opts optionMap commandMap (pre @ arg # next # rest) parsed st
           = (case parseValue (opts ! k) next st1 of
                Inl e \<Rightarrow> Raised e matched st1
              | Inr st2 \<Rightarrow> globalWalk opts optionMap commandMap rest (insert k matched) st2)"
  using globalWalk_append [OF assms(1), of "arg # next # rest"]
    globalWalk_value_next [OF assms(2-6)]
  by simp

lemma walk_flag_true:
  assumes "globalWalk opts optionMap commandMap pre parsed st = AtEnd matched st1"
    and "map_of commandMap arg = None" "map_of optionMap arg = Some k"
    and "k \<notin> matched" "k < length opts"
    and "wellFormed (opts ! k)" "valuePtr (opts ! k) = BoolVar b"
  shows "globalWalk opts optionMap commandMap (pre @ arg # rest) parsed st
           = globalWalk opts optionMap commandMap rest (insert k matched)
               (st1\<lparr>bools := (bools st1)(b := True)\<rparr>)"
proof -
  from assms(6,7) have nv: "\<not> needsValue (opts ! k)" by (simp add: wellFormed_def)
  have pv: "parseValue (opts ! k) ''true'' st1 = Inr (st1\<lparr>bools := (bools st1)(b := True)\<rparr>)"
    using assms(7) by (simp add: parseValue_def fromStr_bool_def)
  show ?thesis
    using globalWalk_append [OF assms(1), of "arg # rest"]
      globalWalk_flag [OF assms(2-5) nv] pv
    by simp
qed

lemma walk_duplicate:
  assumes "globalWalk opts optionMap commandMap pre parsed st = AtEnd matched1 st1"
    and "globalWalk opts optionMap commandMap (tok1 # mid) matched1 st1 = AtEnd matched2 st2"
    and "map_of optionMap tok1 = Some k"
    and "map_of commandMap tok2 = None" "map_of optionMap tok2 = Some k"
  shows "globalWalk opts optionMap commandMap (pre @ tok1 # mid @ tok2 # rest) parsed st
           = Raised (MultiArg (buildDuplicateArgNames optionMap k)) matched2 st2"
proof -
  have k: "k \<in> matched2" using globalWalk_first_matched [OF assms(2,3)] .
  have "globalWalk opts optionMap commandMap (pre @ tok1 # mid @ tok2 # rest) parsed st
      = globalWalk opts optionMap commandMap ((tok1 # mid) @ tok2 # rest) matched1 st1"
    using globalWalk_append [OF assms(1), of "tok1 # mid @ tok2 # rest"] by simp
  also have "\<dots> = globalWalk opts optionMap commandMap (tok2 # rest) matched2 st2"
    by (rule globalWalk_append [OF assms(2)])
  also have "\<dots> = Raised (MultiArg (buildDuplicateArgNames optionMap k)) matched2 st2"
    by (rule globalWalk_duplicate [OF assms(4,5) k])
  finally show ?thesis .
qed

lemma walk_unmatched_index:
  assumes "globalWalk opts optionMap commandMap pre {} st = AtEnd matched st1"
    and "\<forall>t\<in>set pre. map_of optionMap t \<noteq> Some j"
  shows "j \<notin> matched"
  using globalWalk_matched_resolved [OF assms(1) [symmetric]] assms(2) by auto

lemma walk_reaches_command:
  assumes "globalWalk opts optionMap commandMap pre parsed st = AtEnd matched st1"
    and "map_of commandMap tok = Some cmdIdx"
  shows "globalWalk opts optionMap commandMap (pre @ tok # rest) parsed st
           = AtCommand cmdIdx rest matched st1"
  using globalWalk_append [OF assms(1), of "tok # rest"] assms(2) by simp

section \<open>Options that take a value\<close>

text \<open>
  Claim C5, as amended. The duplicate check comes first. In a \<open>parseCommand\<close> call and
  at the global level of a \<open>parse\<close> call alike, when the tokens before have been walked
  without error and the walk reaches a token that resolves to an option:

    \<^item> if the option needs a value and has not been matched before in the call, then,
      when the token is the last one, the call raises the insufficient-values error for
      it; otherwise the next token is handed to that option's \<open>parseValue\<close>, whose error
      ends the walk, and when it succeeds the walk goes on with the token after the
      value;

    \<^item> if the option has been matched before in the call, the call raises the duplicate
      error, whatever follows the token, and so also when it is the last one.

  At the global level the token is one that is not a command name.
\<close>

theorem value_option_takes_next_token:
  "(parseCommand_loop (cmdOptions cmd) (nameMapOf cmd) pre {} st = (None, matched, st1)
      \<and> map_of (nameMapOf cmd) arg = Some k \<and> k \<notin> matched \<and> needsValue (cmdOptions cmd ! k)
    \<longrightarrow> parseCommand cmd (pre @ [arg]) st = (Some (InsufficientValues arg), st1)
      \<and> parseCommand_loop (cmdOptions cmd) (nameMapOf cmd) (pre @ arg # nextTok # rest) {} st
          = (case parseValue (cmdOptions cmd ! k) nextTok st1 of
               Inl e \<Rightarrow> (Some e, matched, st1)
             | Inr st2 \<Rightarrow>
                 parseCommand_loop (cmdOptions cmd) (nameMapOf cmd) rest (insert k matched) st2))
   \<and> (globalWalk (appOptions app) (optionMapOf app) (commandMapOf app) pre {} st
          = AtEnd matched st1
      \<and> map_of (commandMapOf app) arg = None \<and> map_of (optionMapOf app) arg = Some k
      \<and> k \<notin> matched \<and> needsValue (appOptions app ! k)
    \<longrightarrow> parseArgs app (pre @ [arg]) st = (Some (InsufficientValues arg), st1)
      \<and> globalWalk (appOptions app) (optionMapOf app) (commandMapOf app)
            (pre @ arg # nextTok # rest) {} st
          = (case parseValue (appOptions app ! k) nextTok st1 of
               Inl e \<Rightarrow> Raised e matched st1
             | Inr st2 \<Rightarrow>
                 globalWalk (appOptions app) (optionMapOf app) (commandMapOf app) rest
                   (insert k matched) st2))
   \<and> (parseCommand_loop (cmdOptions cmd) (nameMapOf cmd) pre {} st = (None, matched, st1)
      \<and> map_of (nameMapOf cmd) arg = Some k \<and> k \<in> matched
    \<longrightarrow> parseCommand cmd (pre @ arg # rest) st
          = (Some (MultiArg (buildDuplicateArgNames (nameMapOf cmd) k)), st1))
   \<and> (globalWalk (appOptions app) (optionMapOf app) (commandMapOf app) pre {} st
          = AtEnd matched st1
      \<and> map_of (commandMapOf app) arg = None \<and> map_of (optionMapOf app) arg = Some k
      \<and> k \<in> matched
    \<longrightarrow> parseArgs app (pre @ arg # rest) st
          = (Some (MultiArg (buildDuplicateArgNames (optionMapOf app) k)), st1))"
proof (intro conjI impI)
  assume h: "parseCommand_loop (cmdOptions cmd) (nameMapOf cmd) pre {} st = (None, matched, st1)
      \<and> map_of (nameMapOf cmd) arg = Some k \<and> k \<notin> matched \<and> needsValue (cmdOptions cmd ! k)"
  then have w: "globalWalk (cmdOptions cmd) (nameMapOf cmd) [] pre {} st = AtEnd matched st1"
    by (simp add: parseCommand_loop_None)
  have noCmd: "map_of ([] :: std_map) arg = None" by simp
  from h have rest: "map_of (nameMapOf cmd) arg = Some k" "k \<notin> matched"
    "needsValue (cmdOptions cmd ! k)" by simp_all
  from rest(1) have k: "k < length (cmdOptions cmd)" by (rule nameMap_in_range)
  show "parseCommand cmd (pre @ [arg]) st = (Some (InsufficientValues arg), st1)"
    by (simp add: parseCommand_walk walk_value_last [OF w noCmd rest(1,2) k rest(3)])
  show "parseCommand_loop (cmdOptions cmd) (nameMapOf cmd) (pre @ arg # nextTok # rest) {} st
          = (case parseValue (cmdOptions cmd ! k) nextTok st1 of
               Inl e \<Rightarrow> (Some e, matched, st1)
             | Inr st2 \<Rightarrow>
                 parseCommand_loop (cmdOptions cmd) (nameMapOf cmd) rest (insert k matched) st2)"
    by (simp add: parseCommand_loop_walk walk_value_next [OF w noCmd rest(1,2) k rest(3)]
        split: sum.splits)
next
  assume h: "globalWalk (appOptions app) (optionMapOf app) (commandMapOf app) pre {} st
          = AtEnd matched st1
      \<and> map_of (commandMapOf app) arg = None \<and> map_of (optionMapOf app) arg = Some k
      \<and> k \<notin> matched \<and> needsValue (appOptions app ! k)"
  then have w: "globalWalk (appOptions app) (optionMapOf app) (commandMapOf app) pre {} st
          = AtEnd matched st1"
    and rest: "map_of (commandMapOf app) arg = None" "map_of (optionMapOf app) arg = Some k"
      "k \<notin> matched" "needsValue (appOptions app ! k)" by simp_all
  from rest(2) have k: "k < length (appOptions app)" by (rule nameMap_in_range)
  show "parseArgs app (pre @ [arg]) st = (Some (InsufficientValues arg), st1)"
    by (simp add: parseArgs_walk walk_value_last [OF w rest(1,2,3) k rest(4)])
  show "globalWalk (appOptions app) (optionMapOf app) (commandMapOf app)
            (pre @ arg # nextTok # rest) {} st
          = (case parseValue (appOptions app ! k) nextTok st1 of
               Inl e \<Rightarrow> Raised e matched st1
             | Inr st2 \<Rightarrow>
                 globalWalk (appOptions app) (optionMapOf app) (commandMapOf app) rest
                   (insert k matched) st2)"
    by (rule walk_value_next [OF w rest(1,2,3) k rest(4)])
next
  assume h: "parseCommand_loop (cmdOptions cmd) (nameMapOf cmd) pre {} st = (None, matched, st1)
      \<and> map_of (nameMapOf cmd) arg = Some k \<and> k \<in> matched"
  then have w: "globalWalk (cmdOptions cmd) (nameMapOf cmd) [] pre {} st = AtEnd matched st1"
    by (simp add: parseCommand_loop_None)
  have noCmd: "map_of ([] :: std_map) arg = None" by simp
  from h have rest: "map_of (nameMapOf cmd) arg = Some k" "k \<in> matched" by simp_all
  have "globalWalk (cmdOptions cmd) (nameMapOf cmd) [] (pre @ arg # rest) {} st
      = Raised (MultiArg (buildDuplicateArgNames (nameMapOf cmd) k)) matched st1"
    using globalWalk_append [OF w, of "arg # rest"] globalWalk_duplicate [OF noCmd rest]
    by simp
  then show "parseCommand cmd (pre @ arg # rest) st
          = (Some (MultiArg (buildDuplicateArgNames (nameMapOf cmd) k)), st1)"
    by (simp add: parseCommand_walk)
next
  assume h: "globalWalk (appOptions app) (optionMapOf app) (commandMapOf app) pre {} st
          = AtEnd matched st1
      \<and> map_of (commandMapOf app) arg = None \<and> map_of (optionMapOf app) arg = Some k
      \<and> k \<in> matched"
  then have w: "globalWalk (appOptions app) (optionMapOf app) (commandMapOf app) pre {} st
          = AtEnd matched st1"
    and rest: "map_of (commandMapOf app) arg = None" "map_of (optionMapOf app) arg = Some k"
      "k \<in> matched" by simp_all
  have "globalWalk (appOptions app) (optionMapOf app) (commandMapOf app) (pre @ arg # rest) {} st
      = Raised (MultiArg (buildDuplicateArgNames (optionMapOf app) k)) matched st1"
    using globalWalk_append [OF w, of "arg # rest"] globalWalk_duplicate [OF rest]
    by simp
  then show "parseArgs app (pre @ arg # rest) st
          = (Some (MultiArg (buildDuplicateArgNames (optionMapOf app) k)), st1)"
    by (simp add: parseArgs_walk)
qed

theorem value_option_takes_next_token_witness:
  "parseCommand number_command [''--number''] demo_store
     = (Some (InsufficientValues ''--number''), demo_store)
   \<and> ints (snd (snd (parseCommand_loop (cmdOptions number_command) (nameMapOf number_command)
        [''--number'', ''42''] {} demo_store))) 0 = 42
   \<and> fst (parseArgs demo_app [''--verbose'', ''--name''] demo_store)
     = Some (InsufficientValues ''--name'')
   \<and> walk_parsed (globalWalk (appOptions demo_app) (optionMapOf demo_app) (commandMapOf demo_app)
        [''--verbose'', ''--name'', ''build''] {} demo_store) = {0, 1}
   \<and> parseCommand number_command [''--number'', ''1'', ''--number''] demo_store
     = (Some (MultiArg ''--number, -n, ''), demo_store\<lparr>ints := (ints demo_store)(0 := 1)\<rparr>)
   \<and> parseArgs demo_app [''--verbose'', ''-v'', ''build''] demo_store
     = (Some (MultiArg ''--verbose, -v, ''), demo_store\<lparr>bools := (bools demo_store)(0 := True)\<rparr>)"
proof -
  have c: "parseCommand_loop (cmdOptions number_command) (nameMapOf number_command) [] {} demo_store
        = (None, {}, demo_store)
      \<and> map_of (nameMapOf number_command) ''--number'' = Some 0 \<and> 0 \<notin> ({} :: nat set)
      \<and> needsValue (cmdOptions number_command ! 0)"
    by (simp add: demo_defs)
  have a: "globalWalk (appOptions demo_app) (optionMapOf demo_app) (commandMapOf demo_app)
          [''--verbose''] {} demo_store
        = AtEnd {1} (demo_store\<lparr>bools := (bools demo_store)(0 := True)\<rparr>)
      \<and> map_of (commandMapOf demo_app) ''--name'' = None
      \<and> map_of (optionMapOf demo_app) ''--name'' = Some 0
      \<and> 0 \<notin> {1 :: nat} \<and> needsValue (appOptions demo_app ! 0)"
    by (simp add: demo_defs demo_eval)
  have d: "parseCommand_loop (cmdOptions number_command) (nameMapOf number_command)
          [''--number'', ''1''] {} demo_store
        = (None, {0}, demo_store\<lparr>ints := (ints demo_store)(0 := 1)\<rparr>)
      \<and> map_of (nameMapOf number_command) ''--number'' = Some 0 \<and> 0 \<in> {0 :: nat}"
    by (simp add: demo_defs demo_eval)
  have e: "globalWalk (appOptions demo_app) (optionMapOf demo_app) (commandMapOf demo_app)
          [''--verbose''] {} demo_store
        = AtEnd {1} (demo_store\<lparr>bools := (bools demo_store)(0 := True)\<rparr>)
      \<and> map_of (commandMapOf demo_app) ''-v'' = None
      \<and> map_of (optionMapOf demo_app) ''-v'' = Some 1 \<and> 1 \<in> {1 :: nat}"
    by (simp add: demo_defs demo_eval)
  have n: "buildDuplicateArgNames (nameMapOf number_command) 0 = ''--number, -n, ''"
    "buildDuplicateArgNames (optionMapOf demo_app) 1 = ''--verbose, -v, ''"
    by (simp_all add: demo_defs demo_eval)
  note t1 = value_option_takes_next_token [where cmd = number_command and pre = "[]"
        and st = demo_store and matched = "{}" and ?st1.0 = demo_store
        and arg = "''--number''" and k = 0 and nextTok = "''42''" and rest = "[]"
        and app = demo_app]
  note t2 = value_option_takes_next_token [where app = demo_app and pre = "[''--verbose'']"
        and st = demo_store and matched = "{1}"
        and ?st1.0 = "demo_store\<lparr>bools := (bools demo_store)(0 := True)\<rparr>"
        and arg = "''--name''" and k = 0 and nextTok = "''build''" and rest = "[]"
        and cmd = number_command]
  note t3 = value_option_takes_next_token [where cmd = number_command
        and pre = "[''--number'', ''1'']" and st = demo_store and matched = "{0}"
        and ?st1.0 = "demo_store\<lparr>ints := (ints demo_store)(0 := 1)\<rparr>"
        and arg = "''--number''" and k = 0 and rest = "[]" and app = demo_app]
  note t4 = value_option_takes_next_token [where app = demo_app and pre = "[''--verbose'']"
        and st = demo_store and matched = "{1}"
        and ?st1.0 = "demo_store\<lparr>bools := (bools demo_store)(0 := True)\<rparr>"
        and arg = "''-v''" and k = 1 and rest = "[''build'']" and cmd = number_command]
  from t1 [THEN conjunct1, THEN mp, OF c]
  have r1: "parseCommand number_command [''--number''] demo_store
     = (Some (InsufficientValues ''--number''), demo_store)"
    and r2: "ints (snd (snd (parseCommand_loop (cmdOptions number_command)
        (nameMapOf number_command) [''--number'', ''42''] {} demo_store))) 0 = 42"
    by (simp_all add: demo_defs demo_eval)
  from t2 [THEN conjunct2, THEN conjunct1, THEN mp, OF a]
  have r3: "fst (parseArgs demo_app [''--verbose'', ''--name''] demo_store)
     = Some (InsufficientValues ''--name'')"
    and r4: "walk_parsed (globalWalk (appOptions demo_app) (optionMapOf demo_app)
        (commandMapOf demo_app) [''--verbose'', ''--name'', ''build''] {} demo_store) = {0, 1}"
    by (simp_all add: demo_defs demo_eval insert_commute)
  from t3 [THEN conjunct2, THEN conjunct2, THEN conjunct1, THEN mp, OF d]
  have r5: "parseCommand number_command [''--number'', ''1'', ''--number''] demo_store
     = (Some (MultiArg ''--number, -n, ''), demo_store\<lparr>ints := (ints demo_store)(0 := 1)\<rparr>)"
    unfolding n by simp
  from t4 [THEN conjunct2, THEN conjunct2, THEN conjunct2, THEN mp, OF e]
  have r6: "parseArgs demo_app [''--verbose'', ''-v'', ''build''] demo_store
     = (Some (MultiArg ''--verbose, -v, ''), demo_store\<lparr>bools := (bools demo_store)(0 := True)\<rparr>)"
    unfolding n by simp
  from r1 r2 r3 r4 r5 r6 show ?thesis by blast
qed


theorem last_value_option_counterexample:
  "map_of (nameMapOf number_command) ''--number'' = Some 0
   \<and> needsValue (cmdOptions number_command ! 0)
   \<and> fst (parseCommand number_command [''--number'', ''1'', ''--number''] demo_store)
       = Some (MultiArg ''--number, -n, '')
   \<and> fst (parseCommand number_command [''--number'', ''1'', ''--number''] demo_store)
       \<noteq> Some (InsufficientValues ''--number'')"
  by (simp add: demo_defs demo_eval)

section \<open>Naming an option twice\<close>

text \<open>
  Claim C3, as amended. Within one walk (a \<open>parseCommand\<close> call, or the global level of
  a \<open>parse\<close> call), when the tokens before parse without error, the walk matches a
  token that resolves to the option index \<open>k\<close>, the tokens after it parse without error,
  and the walk then reaches a token that resolves to the same index \<open>k\<close>, under either
  name of the option and in either order, the call raises the duplicate error at that
  token, naming the aliases of index \<open>k\<close>. Two tokens are the same option exactly when the
  name map gives them the same index: an index that no earlier token maps to is never
  among the matched ones. A token that is taken as the value of the option before it,
  or that comes after the command token, is not reached by the walk.
\<close>

theorem second_occurrence_rejected:
  "(parseCommand_loop (cmdOptions cmd) (nameMapOf cmd) pre {} st = (None, matched1, st1)
      \<and> parseCommand_loop (cmdOptions cmd) (nameMapOf cmd) (tok1 # mid) matched1 st1
          = (None, matched2, st2)
      \<and> map_of (nameMapOf cmd) tok1 = Some k \<and> map_of (nameMapOf cmd) tok2 = Some k
    \<longrightarrow> parseCommand cmd (pre @ tok1 # mid @ tok2 # rest) st
          = (Some (MultiArg (buildDuplicateArgNames (nameMapOf cmd) k)), st2))
   \<and> (globalWalk (appOptions app) (optionMapOf app) (commandMapOf app) pre {} st
          = AtEnd matched1 st1
      \<and> globalWalk (appOptions app) (optionMapOf app) (commandMapOf app) (tok1 # mid) matched1 st1
          = AtEnd matched2 st2
      \<and> map_of (optionMapOf app) tok1 = Some k
      \<and> map_of (commandMapOf app) tok2 = None \<and> map_of (optionMapOf app) tok2 = Some k
    \<longrightarrow> parseArgs app (pre @ tok1 # mid @ tok2 # rest) st
          = (Some (MultiArg (buildDuplicateArgNames (optionMapOf app) k)), st2))
   \<and> (parseCommand_loop (cmdOptions cmd) (nameMapOf cmd) pre {} st = (None, matched1, st1)
      \<and> (\<forall>t\<in>set pre. map_of (nameMapOf cmd) t \<noteq> Some j)
    \<longrightarrow> j \<notin> matched1)
   \<and> (globalWalk (appOptions app) (optionMapOf app) (commandMapOf app) pre {} st
          = AtEnd matched1 st1
      \<and> (\<forall>t\<in>set pre. map_of (optionMapOf app) t \<noteq> Some j)
    \<longrightarrow> j \<notin> matched1)"
proof (intro conjI impI)
  assume h: "parseCommand_loop (cmdOptions cmd) (nameMapOf cmd) pre {} st = (None, matched1, st1)
      \<and> parseCommand_loop (cmdOptions cmd) (nameMapOf cmd) (tok1 # mid) matched1 st1
          = (None, matched2, st2)
      \<and> map_of (nameMapOf cmd) tok1 = Some k \<and> map_of (nameMapOf cmd) tok2 = Some k"
  then have w1: "globalWalk (cmdOptions cmd) (nameMapOf cmd) [] pre {} st = AtEnd matched1 st1"
    and w2: "globalWalk (cmdOptions cmd) (nameMapOf cmd) [] (tok1 # mid) matched1 st1
        = AtEnd matched2 st2"
    and k: "map_of (nameMapOf cmd) tok1 = Some k" "map_of (nameMapOf cmd) tok2 = Some k"
    by (simp_all only: parseCommand_loop_None)
  have noCmd: "map_of ([] :: std_map) tok2 = None" by simp
  show "parseCommand cmd (pre @ tok1 # mid @ tok2 # rest) st
          = (Some (MultiArg (buildDuplicateArgNames (nameMapOf cmd) k)), st2)"
    by (simp add: parseCommand_walk walk_duplicate [OF w1 w2 k(1) noCmd k(2)])
next
  assume h: "globalWalk (appOptions app) (optionMapOf app) (commandMapOf app) pre {} st
          = AtEnd matched1 st1
      \<and> globalWalk (appOptions app) (optionMapOf app) (commandMapOf app) (tok1 # mid) matched1 st1
          = AtEnd matched2 st2
      \<and> map_of (optionMapOf app) tok1 = Some k
      \<and> map_of (commandMapOf app) tok2 = None \<and> map_of (optionMapOf app) tok2 = Some k"
  then have w1: "globalWalk (appOptions app) (optionMapOf app) (commandMapOf app) pre {} st
          = AtEnd matched1 st1"
    and w2: "globalWalk (appOptions app) (optionMapOf app) (commandMapOf app) (tok1 # mid)
          matched1 st1 = AtEnd matched2 st2"
    and k: "map_of (optionMapOf app) tok1 = Some k" "map_of (commandMapOf app) tok2 = None"
      "map_of (optionMapOf app) tok2 = Some k"
    by simp_all
  show "parseArgs app (pre @ tok1 # mid @ tok2 # rest) st
          = (Some (MultiArg (buildDuplicateArgNames (optionMapOf app) k)), st2)"
    by (simp add: parseArgs_walk walk_duplicate [OF w1 w2 k])
next
  assume h: "parseCommand_loop (cmdOptions cmd) (nameMapOf cmd) pre {} st = (None, matched1, st1)
      \<and> (\<forall>t\<in>set pre. map_of (nameMapOf cmd) t \<noteq> Some j)"
  then have w1: "globalWalk (cmdOptions cmd) (nameMapOf cmd) [] pre {} st = AtEnd matched1 st1"
    by (simp only: parseCommand_loop_None)
  from h have "\<forall>t\<in>set pre. map_of (nameMapOf cmd) t \<noteq> Some j" by simp
  with w1 show "j \<notin> matched1" by (rule walk_unmatched_index)
next
  assume h: "globalWalk (appOptions app) (optionMapOf app) (commandMapOf app) pre {} st
          = AtEnd matched1 st1
      \<and> (\<forall>t\<in>set pre. map_of (optionMapOf app) t \<noteq> Some j)"
  then have w1: "globalWalk (appOptions app) (optionMapOf app) (commandMapOf app) pre {} st
          = AtEnd matched1 st1" by simp
  from h have "\<forall>t\<in>set pre. map_of (optionMapOf app) t \<noteq> Some j" by simp
  with w1 show "j \<notin> matched1" by (rule walk_unmatched_index)
qed

theorem second_occurrence_rejected_witness:
  "fst (parseCommand number_command [''-n'', ''10'', ''--number'', ''20''] demo_store)
     = Some (MultiArg ''--number, -n, '')
   \<and> ints (snd (parseCommand number_command [''-n'', ''10'', ''--number'', ''20''] demo_store)) 0
     = 10
   \<and> fst (parseArgs demo_app [''--verbose'', ''-v''] demo_store)
     = Some (MultiArg ''--verbose, -v, '')
   \<and> (0 :: nat) \<notin> {1}"
proof -
  have c: "parseCommand_loop (cmdOptions number_command) (nameMapOf number_command) [] {} demo_store
        = (None, {}, demo_store)
      \<and> parseCommand_loop (cmdOptions number_command) (nameMapOf number_command)
          [''-n'', ''10''] {} demo_store
        = (None, {0}, demo_store\<lparr>ints := (ints demo_store)(0 := 10)\<rparr>)
      \<and> map_of (nameMapOf number_command) ''-n'' = Some 0
      \<and> map_of (nameMapOf number_command) ''--number'' = Some 0"
    by (simp add: demo_defs demo_eval)
  have a: "globalWalk (appOptions demo_app) (optionMapOf demo_app) (commandMapOf demo_app)
          [] {} demo_store = AtEnd {} demo_store
      \<and> globalWalk (appOptions demo_app) (optionMapOf demo_app) (commandMapOf demo_app)
          [''--verbose''] {} demo_store
        = AtEnd {1} (demo_store\<lparr>bools := (bools demo_store)(0 := True)\<rparr>)
      \<and> map_of (optionMapOf demo_app) ''--verbose'' = Some 1
      \<and> map_of (commandMapOf demo_app) ''-v'' = None
      \<and> map_of (optionMapOf demo_app) ''-v'' = Some 1"
    by (simp add: demo_defs demo_eval)
  have u: "\<forall>t\<in>set [''--verbose'']. map_of (optionMapOf demo_app) t \<noteq> Some 0"
    by (simp add: demo_defs)
  show ?thesis
    using c a u
      second_occurrence_rejected [where cmd = number_command and pre = "[]" and st = demo_store
        and ?matched1.0 = "{}" and ?st1.0 = demo_store and ?tok1.0 = "''-n''"
        and mid = "[''10'']" and ?matched2.0 = "{0}"
        and ?st2.0 = "demo_store\<lparr>ints := (ints demo_store)(0 := 10)\<rparr>"
        and k = 0 and ?tok2.0 = "''--number''" and rest = "[''20'']" and app = demo_app
        and j = 1]
      second_occurrence_rejected [where app = demo_app and pre = "[]" and st = demo_store
        and ?matched1.0 = "{}" and ?st1.0 = demo_store and ?tok1.0 = "''--verbose''"
        and mid = "[]" and ?matched2.0 = "{1}"
        and ?st2.0 = "demo_store\<lparr>bools := (bools demo_store)(0 := True)\<rparr>"
        and k = 1 and ?tok2.0 = "''-v''" and rest = "[]" and cmd = number_command and j = 0]
      second_occurrence_rejected [where app = demo_app and pre = "[''--verbose'']"
        and st = demo_store and ?matched1.0 = "{1}"
        and ?st1.0 = "demo_store\<lparr>bools := (bools demo_store)(0 := True)\<rparr>"
        and j = 0 and cmd = number_command]
    by (simp add: demo_defs demo_eval)
qed

theorem second_occurrence_counterexample:
  "map_of (nameMapOf name_command) ''--name'' = Some 0
   \<and> fst (parseCommand name_command [''--name'', ''--name''] demo_store) = None
   \<and> strings (snd (parseCommand name_command [''--name'', ''--name''] demo_store)) 0 = ''--name''
   \<and> map_of (optionMapOf demo_app) ''--verbose'' = Some 1
   \<and> fst (parseArgs demo_app [''--verbose'', ''build'', ''--verbose''] demo_store)
       = Some (UnknownArg ''--verbose'')
   \<and> fst (parse demo_app 4 [''app'', ''--verbose'', ''build'', ''--verbose''] demo_store)
       = Some (UnknownArg ''--verbose'')"
  by (simp add: parse_def buildArray_def upt_rec demo_defs demo_eval)

section \<open>Presence flags\<close>

lemma parseCommand_bools:
  assumes "\<forall>opt\<in>set (cmdOptions cmd). wellFormed opt"
  shows "bools (snd (parseCommand cmd args st)) a = bools st a
         \<or> bools (snd (parseCommand cmd args st)) a = True"
proof -
  let ?w = "globalWalk (cmdOptions cmd) (nameMapOf cmd) [] args {} st"
  have "snd (parseCommand cmd args st) = walk_store ?w"
    by (cases ?w) (simp_all add: parseCommand_walk)
  with globalWalk_bools [OF refl assms, of "nameMapOf cmd" "[]" args "{}" st a]
  show ?thesis by simp
qed

lemma processCommand_bools:
  assumes "\<forall>c\<in>set (commands app). \<forall>opt\<in>set (cmdOptions (fst c)). wellFormed opt"
  shows "bools (snd (processCommand app cmdIdx cmdArgs st)) a = bools st a
         \<or> bools (snd (processCommand app cmdIdx cmdArgs st)) a = True"
proof (cases "cmdIdx \<ge> length (commands app)")
  case True
  then show ?thesis by (simp add: processCommand_def)
next
  case False
  obtain cmdPtr executed where c: "commands app ! cmdIdx = (cmdPtr, executed)"
    by (cases "commands app ! cmdIdx") auto
  from False have "commands app ! cmdIdx \<in> set (commands app)" by simp
  with assms c have wf: "\<forall>opt\<in>set (cmdOptions cmdPtr). wellFormed opt" by fastforce
  obtain r st' where p: "parseCommand cmdPtr cmdArgs st = (r, st')"
    by (cases "parseCommand cmdPtr cmdArgs st") auto
  from parseCommand_bools [OF wf, of cmdArgs st a] p
  have "bools st' a = bools st a \<or> bools st' a = True" by simp
  with False c p show ?thesis
    by (cases r) (auto simp: processCommand_def)
qed

lemma parseArgs_bools:
  assumes "\<forall>opt\<in>set (appOptions app). wellFormed opt"
    and "\<forall>c\<in>set (commands app). \<forall>opt\<in>set (cmdOptions (fst c)). wellFormed opt"
  shows "bools (snd (parseArgs app args st)) a = bools st a
         \<or> bools (snd (parseArgs app args st)) a = True"
proof -
  let ?w = "globalWalk (appOptions app) (optionMapOf app) (commandMapOf app) args {} st"
  note g = globalWalk_bools [OF refl assms(1), of "optionMapOf app" "commandMapOf app" args "{}" st a]
  show ?thesis
  proof (cases ?w)
    case (Raised e matched st')
    with g show ?thesis by (simp add: parseArgs_walk)
  next
    case (AtEnd matched st')
    with g show ?thesis by (simp add: parseArgs_walk)
  next
    case (AtCommand cmdIdx cmdArgs matched st')
    with g have "bools st' a = bools st a \<or> bools st' a = True" by simp
    with processCommand_bools [OF assms(2), of cmdIdx cmdArgs st' a] AtCommand
    show ?thesis by (auto simp: parseArgs_walk)
  qed
qed

lemma parse_bools:
  assumes "\<forall>opt\<in>set (appOptions app). wellFormed opt"
    and "\<forall>c\<in>set (commands app). \<forall>opt\<in>set (cmdOptions (fst c)). wellFormed opt"
  shows "bools (snd (parse app argc argv st)) a = bools st a
         \<or> bools (snd (parse app argc argv st)) a = True"
  using parseArgs_bools [OF assms]
  by (cases "buildArray argc argv") (simp_all add: parse_def)

text \<open>
  Claim C10. A \<^verbatim>\<open>bool\<close> option is made with \<open>needsValue\<close> cleared, so when the walk
  matches it, \<open>parseValue\<close> is called with the string "true" and the target becomes true,
  and the walk goes on with the next token. The only other write to a \<^verbatim>\<open>bool\<close> is the
  \<open>executed\<close> flag, set to true. After any \<open>parseCommand\<close> or \<open>parse\<close> call, whether it
  returns or raises, every \<^verbatim>\<open>bool\<close> of the caller is therefore either what it was or
  true.
\<close>

theorem bool_targets_only_set:
  "(parseCommand_loop (cmdOptions cmd) (nameMapOf cmd) pre {} st = (None, matched, st1)
      \<and> map_of (nameMapOf cmd) arg = Some k \<and> k \<notin> matched
      \<and> wellFormed (cmdOptions cmd ! k) \<and> valuePtr (cmdOptions cmd ! k) = BoolVar b
    \<longrightarrow> parseValue (cmdOptions cmd ! k) ''true'' st1
          = Inr (st1\<lparr>bools := (bools st1)(b := True)\<rparr>)
      \<and> parseCommand_loop (cmdOptions cmd) (nameMapOf cmd) (pre @ arg # rest) {} st
          = parseCommand_loop (cmdOptions cmd) (nameMapOf cmd) rest (insert k matched)
              (st1\<lparr>bools := (bools st1)(b := True)\<rparr>))
   \<and> (globalWalk (appOptions app) (optionMapOf app) (commandMapOf app) pre {} st
          = AtEnd matched st1
      \<and> map_of (commandMapOf app) arg = None \<and> map_of (optionMapOf app) arg = Some k
      \<and> k \<notin> matched
      \<and> wellFormed (appOptions app ! k) \<and> valuePtr (appOptions app ! k) = BoolVar b
    \<longrightarrow> parseValue (appOptions app ! k) ''true'' st1
          = Inr (st1\<lparr>bools := (bools st1)(b := True)\<rparr>)
      \<and> globalWalk (appOptions app) (optionMapOf app) (commandMapOf app) (pre @ arg # rest) {} st
          = globalWalk (appOptions app) (optionMapOf app) (commandMapOf app) rest
              (insert k matched) (st1\<lparr>bools := (bools st1)(b := True)\<rparr>))
   \<and> ((\<forall>opt\<in>set (cmdOptions cmd). wellFormed opt)
    \<longrightarrow> bools (snd (parseCommand cmd args st)) a = bools st a
        \<or> bools (snd (parseCommand cmd args st)) a = True)
   \<and> ((\<forall>opt\<in>set (appOptions app). wellFormed opt)
      \<and> (\<forall>c\<in>set (commands app). \<forall>opt\<in>set (cmdOptions (fst c)). wellFormed opt)
    \<longrightarrow> (bools (snd (parseArgs app args st)) a = bools st a
         \<or> bools (snd (parseArgs app args st)) a = True)
      \<and> (bools (snd (parse app argc argv st)) a = bools st a
         \<or> bools (snd (parse app argc argv st)) a = True))"
proof (intro conjI impI)
  assume h: "parseCommand_loop (cmdOptions cmd) (nameMapOf cmd) pre {} st = (None, matched, st1)
      \<and> map_of (nameMapOf cmd) arg = Some k \<and> k \<notin> matched
      \<and> wellFormed (cmdOptions cmd ! k) \<and> valuePtr (cmdOptions cmd ! k) = BoolVar b"
  then have w: "globalWalk (cmdOptions cmd) (nameMapOf cmd) [] pre {} st = AtEnd matched st1"
    by (simp only: parseCommand_loop_None)
  from h have r: "map_of (nameMapOf cmd) arg = Some k" "k \<notin> matched"
      "wellFormed (cmdOptions cmd ! k)" "valuePtr (cmdOptions cmd ! k) = BoolVar b"
    by simp_all
  from r(1) have k: "k < length (cmdOptions cmd)" by (rule nameMap_in_range)
  have noCmd: "map_of ([] :: std_map) arg = None" by simp
  show "parseValue (cmdOptions cmd ! k) ''true'' st1
          = Inr (st1\<lparr>bools := (bools st1)(b := True)\<rparr>)"
    using r(4) by (simp add: parseValue_def fromStr_bool_def)
  show "parseCommand_loop (cmdOptions cmd) (nameMapOf cmd) (pre @ arg # rest) {} st
          = parseCommand_loop (cmdOptions cmd) (nameMapOf cmd) rest (insert k matched)
              (st1\<lparr>bools := (bools st1)(b := True)\<rparr>)"
    by (simp only: parseCommand_loop_walk walk_flag_true [OF w noCmd r(1,2) k r(3,4)])
next
  assume h: "globalWalk (appOptions app) (optionMapOf app) (commandMapOf app) pre {} st
          = AtEnd matched st1
      \<and> map_of (commandMapOf app) arg = None \<and> map_of (optionMapOf app) arg = Some k
      \<and> k \<notin> matched
      \<and> wellFormed (appOptions app ! k) \<and> valuePtr (appOptions app ! k) = BoolVar b"
  then have w: "globalWalk (appOptions app) (optionMapOf app) (commandMapOf app) pre {} st
          = AtEnd matched st1"
    and r: "map_of (commandMapOf app) arg = None" "map_of (optionMapOf app) arg = Some k"
      "k \<notin> matched" "wellFormed (appOptions app ! k)" "valuePtr (appOptions app ! k) = BoolVar b"
    by simp_all
  from r(2) have k: "k < length (appOptions app)" by (rule nameMap_in_range)
  show "parseValue (appOptions app ! k) ''true'' st1
          = Inr (st1\<lparr>bools := (bools st1)(b := True)\<rparr>)"
    using r(5) by (simp add: parseValue_def fromStr_bool_def)
  show "globalWalk (appOptions app) (optionMapOf app) (commandMapOf app) (pre @ arg # rest) {} st
          = globalWalk (appOptions app) (optionMapOf app) (commandMapOf app) rest
              (insert k matched) (st1\<lparr>bools := (bools st1)(b := True)\<rparr>)"
    by (rule walk_flag_true [OF w r(1,2,3) k r(4,5)])
next
  assume "\<forall>opt\<in>set (cmdOptions cmd). wellFormed opt"
  then show "bools (snd (parseCommand cmd args st)) a = bools st a
        \<or> bools (snd (parseCommand cmd args st)) a = True"
    by (rule parseCommand_bools)
next
  assume wf: "(\<forall>opt\<in>set (appOptions app). wellFormed opt)
      \<and> (\<forall>c\<in>set (commands app). \<forall>opt\<in>set (cmdOptions (fst c)). wellFormed opt)"
  then show "bools (snd (parseArgs app args st)) a = bools st a
        \<or> bools (snd (parseArgs app args st)) a = True"
    using parseArgs_bools by blast
  from wf show "bools (snd (parse app argc argv st)) a = bools st a
        \<or> bools (snd (parse app argc argv st)) a = True"
    using parse_bools by blast
qed

theorem bool_targets_only_set_witness:
  "parseValue verbose_option ''true'' demo_store
     = Inr (demo_store\<lparr>bools := (bools demo_store)(0 := True)\<rparr>)
   \<and> bools (snd (parseCommand flag_command [''-v''] demo_store)) 0 = True
   \<and> bools (snd (parseArgs demo_app [''--name'', ''x'', ''-v'', ''build''] demo_store)) 0 = True
   \<and> bools (snd (parseArgs demo_app [''--name'', ''x'', ''-v'', ''build''] demo_store)) 1 = True"
proof -
  have c: "parseCommand_loop (cmdOptions flag_command) (nameMapOf flag_command) [] {} demo_store
        = (None, {}, demo_store)
      \<and> map_of (nameMapOf flag_command) ''-v'' = Some 0 \<and> 0 \<notin> ({} :: nat set)
      \<and> wellFormed (cmdOptions flag_command ! 0)
      \<and> valuePtr (cmdOptions flag_command ! 0) = BoolVar 0"
    by (simp add: demo_defs wellFormed_def)
  have a: "globalWalk (appOptions demo_app) (optionMapOf demo_app) (commandMapOf demo_app)
          [''--name'', ''x''] {} demo_store
        = AtEnd {0} (demo_store\<lparr>strings := (strings demo_store)(0 := ''x'')\<rparr>)
      \<and> map_of (commandMapOf demo_app) ''-v'' = None
      \<and> map_of (optionMapOf demo_app) ''-v'' = Some 1 \<and> 1 \<notin> {0 :: nat}
      \<and> wellFormed (appOptions demo_app ! 1)
      \<and> valuePtr (appOptions demo_app ! 1) = BoolVar 0"
    by (simp add: demo_defs demo_eval wellFormed_def)
  have wfc: "\<forall>opt\<in>set (cmdOptions flag_command). wellFormed opt"
    by (simp add: demo_defs wellFormed_def)
  have wfa: "(\<forall>opt\<in>set (appOptions demo_app). wellFormed opt)
      \<and> (\<forall>c\<in>set (commands demo_app). \<forall>opt\<in>set (cmdOptions (fst c)). wellFormed opt)"
    by (simp add: demo_defs wellFormed_def)
  show ?thesis
    using c a wfc wfa
      bool_targets_only_set [where cmd = flag_command and pre = "[]" and st = demo_store
        and matched = "{}" and ?st1.0 = demo_store and arg = "''-v''" and k = 0 and b = 0
        and rest = "[]" and app = demo_app and args = "[''-v'']" and a = 0]
      bool_targets_only_set [where app = demo_app and pre = "[''--name'', ''x'']"
        and st = demo_store and matched = "{0}"
        and ?st1.0 = "demo_store\<lparr>strings := (strings demo_store)(0 := ''x'')\<rparr>"
        and arg = "''-v''" and k = 1 and b = 0 and rest = "[''build'']" and cmd = flag_command
        and args = "[''--name'', ''x'', ''-v'', ''build'']" and a = 1]
    by (simp add: demo_defs demo_eval)
qed

section \<open>What a call leaves unchanged\<close>

lemma parseCommand_frame:
  assumes "parseCommand_loop (cmdOptions cmd) (nameMapOf cmd) args {} st = (r, matched, st')"
  shows "parseCommand cmd args st = (r, st')
         \<and> unchanged_outside (targets (cmdOptions cmd) matched) st st'"
proof -
  let ?w = "globalWalk (cmdOptions cmd) (nameMapOf cmd) [] args {} st"
  from assms have "walk_parsed ?w = matched" "walk_store ?w = st'"
    by (cases ?w; simp add: parseCommand_loop_walk)+
  with globalWalk_frame [OF refl, where opts = "cmdOptions cmd" and optionMap = "nameMapOf cmd"
      and commandMap = "[]" and args = args and parsedOptions = "{}" and st = st]
  have "unchanged_outside (targets (cmdOptions cmd) matched) st st'" by simp
  with assms show ?thesis by (simp add: parseCommand_def)
qed

lemma processCommand_frame:
  assumes "cmdIdx < length (commands app)"
    and "parseCommand_loop (cmdOptions (fst (commands app ! cmdIdx)))
           (nameMapOf (fst (commands app ! cmdIdx))) cmdArgs {} st = (r, matched, st')"
  shows "fst (processCommand app cmdIdx cmdArgs st) = r
         \<and> unchanged_outside
              (targets (cmdOptions (fst (commands app ! cmdIdx))) matched
                 \<union> {BoolLoc (snd (commands app ! cmdIdx))})
              st (snd (processCommand app cmdIdx cmdArgs st))"
proof -
  obtain cmdPtr executed where c: "commands app ! cmdIdx = (cmdPtr, executed)"
    by (cases "commands app ! cmdIdx") auto
  from parseCommand_frame [OF assms(2) [unfolded c fst_conv]]
  have p: "parseCommand cmdPtr cmdArgs st = (r, st')"
    and f: "unchanged_outside (targets (cmdOptions cmdPtr) matched) st st'" by simp_all
  have g: "unchanged_outside (targets (cmdOptions cmdPtr) matched \<union> {BoolLoc executed}) st
      (st'\<lparr>bools := (bools st')(executed := True)\<rparr>)"
    using f by (simp add: unchanged_outside_def)
  have g': "unchanged_outside (targets (cmdOptions cmdPtr) matched \<union> {BoolLoc executed}) st st'"
    using f by (simp add: unchanged_outside_def)
  from assms(1) c p g g' show ?thesis
    by (cases r) (simp_all add: processCommand_def)
qed

text \<open>
  Claim C9. \<open>parse\<close> on no token at all (the program name alone) and \<open>parseCommand\<close> on
  an empty list raise nothing and return the caller's memory as it was, the \<open>executed\<close>
  flags included. In general, whatever the call does, the memory changes at most at the
  target variables of the options the walk has matched, and at the \<open>executed\<close> flag of the
  command that was run: every other location, so the variable of every option that was
  not matched (unless it is also the variable of one that was), keeps the value it
  had before the call.
\<close>

theorem unmatched_targets_unchanged:
  "parseArgs app [] st = (None, st)
   \<and> parse app 1 [prog] st = (None, st)
   \<and> parseCommand cmd [] st = (None, st)
   \<and> (parseCommand_loop (cmdOptions cmd) (nameMapOf cmd) args {} st = (r, matched, st')
    \<longrightarrow> parseCommand cmd args st = (r, st')
        \<and> unchanged_outside (targets (cmdOptions cmd) matched) st st')
   \<and> (globalWalk (appOptions app) (optionMapOf app) (commandMapOf app) args {} st
          = Raised e matched st'
    \<longrightarrow> parseArgs app args st = (Some e, st')
        \<and> unchanged_outside (targets (appOptions app) matched) st st')
   \<and> (globalWalk (appOptions app) (optionMapOf app) (commandMapOf app) args {} st
          = AtEnd matched st'
    \<longrightarrow> parseArgs app args st = (None, st')
        \<and> unchanged_outside (targets (appOptions app) matched) st st')
   \<and> (globalWalk (appOptions app) (optionMapOf app) (commandMapOf app) args {} st
          = AtCommand cmdIdx cmdArgs matched st1
      \<and> parseCommand_loop (cmdOptions (fst (commands app ! cmdIdx)))
            (nameMapOf (fst (commands app ! cmdIdx))) cmdArgs {} st1 = (r, matchedCmd, st')
    \<longrightarrow> fst (parseArgs app args st) = r
        \<and> unchanged_outside
             (targets (appOptions app) matched
                \<union> targets (cmdOptions (fst (commands app ! cmdIdx))) matchedCmd
                \<union> {BoolLoc (snd (commands app ! cmdIdx))})
             st (snd (parseArgs app args st)))"
proof (intro conjI impI)
  show "parseArgs app [] st = (None, st)" by (simp add: parseArgs_walk)
  show "parse app 1 [prog] st = (None, st)"
    using parse_tokens [of app "[]" prog st] by (simp add: parseArgs_walk)
  show "parseCommand cmd [] st = (None, st)" by (simp add: parseCommand_walk)
next
  assume "parseCommand_loop (cmdOptions cmd) (nameMapOf cmd) args {} st = (r, matched, st')"
  from parseCommand_frame [OF this]
  show "parseCommand cmd args st = (r, st')"
    and "unchanged_outside (targets (cmdOptions cmd) matched) st st'" by simp_all
next
  assume w: "globalWalk (appOptions app) (optionMapOf app) (commandMapOf app) args {} st
          = Raised e matched st'"
  then show "parseArgs app args st = (Some e, st')" by (simp add: parseArgs_walk)
  from globalWalk_frame [OF w [symmetric]]
  show "unchanged_outside (targets (appOptions app) matched) st st'" by simp
next
  assume w: "globalWalk (appOptions app) (optionMapOf app) (commandMapOf app) args {} st
          = AtEnd matched st'"
  then show "parseArgs app args st = (None, st')" by (simp add: parseArgs_walk)
  from globalWalk_frame [OF w [symmetric]]
  show "unchanged_outside (targets (appOptions app) matched) st st'" by simp
next
  assume h: "globalWalk (appOptions app) (optionMapOf app) (commandMapOf app) args {} st
          = AtCommand cmdIdx cmdArgs matched st1
      \<and> parseCommand_loop (cmdOptions (fst (commands app ! cmdIdx)))
            (nameMapOf (fst (commands app ! cmdIdx))) cmdArgs {} st1 = (r, matchedCmd, st')"
  then have w: "globalWalk (appOptions app) (optionMapOf app) (commandMapOf app) args {} st
          = AtCommand cmdIdx cmdArgs matched st1"
    and p: "parseCommand_loop (cmdOptions (fst (commands app ! cmdIdx)))
            (nameMapOf (fst (commands app ! cmdIdx))) cmdArgs {} st1 = (r, matchedCmd, st')"
    by simp_all
  from globalWalk_decompose [OF w] obtain tok where "map_of (commandMapOf app) tok = Some cmdIdx"
    by blast
  then have c: "cmdIdx < length (commands app)" by (rule commandMap_in_range)
  from globalWalk_frame [OF w [symmetric]]
  have f1: "unchanged_outside (targets (appOptions app) matched) st st1" by simp
  note pc = processCommand_frame [OF c p]
  have eq: "parseArgs app args st = processCommand app cmdIdx cmdArgs st1"
    using w by (simp add: parseArgs_walk)
  from pc eq show "fst (parseArgs app args st) = r" by simp
  from pc eq have f2: "unchanged_outside
      (targets (cmdOptions (fst (commands app ! cmdIdx))) matchedCmd
         \<union> {BoolLoc (snd (commands app ! cmdIdx))}) st1 (snd (parseArgs app args st))"
    by simp
  show "unchanged_outside
             (targets (appOptions app) matched
                \<union> targets (cmdOptions (fst (commands app ! cmdIdx))) matchedCmd
                \<union> {BoolLoc (snd (commands app ! cmdIdx))})
             st (snd (parseArgs app args st))"
    by (rule unchanged_outside_trans [OF f1 f2]) blast
qed

theorem unmatched_targets_unchanged_witness:
  "parse demo_app 1 [''prog''] demo_store = (None, demo_store)
   \<and> ints (snd (parseCommand number_command [''-n'', ''5''] demo_store)) 0 = 5
   \<and> ints (snd (parseCommand number_command [''-n'', ''5''] demo_store)) 1 = 0
   \<and> strings (snd (parseArgs demo_app [''--verbose'', ''--nope''] demo_store)) 0 = []
   \<and> bools (snd (parseArgs demo_app [''--name'', ''x''] demo_store)) 0 = False
   \<and> strings (snd (parseArgs demo_app [''--verbose'', ''build''] demo_store)) 0 = []
   \<and> bools (snd (parseArgs demo_app [''--verbose'', ''build''] demo_store)) 1 = True"
proof -
  have c: "parseCommand_loop (cmdOptions number_command) (nameMapOf number_command)
          [''-n'', ''5''] {} demo_store
        = (None, {0}, demo_store\<lparr>ints := (ints demo_store)(0 := 5)\<rparr>)"
    by (simp add: demo_defs demo_eval)
  have r: "globalWalk (appOptions demo_app) (optionMapOf demo_app) (commandMapOf demo_app)
          [''--verbose'', ''--nope''] {} demo_store
        = Raised (UnknownArg ''--nope'') {1} (demo_store\<lparr>bools := (bools demo_store)(0 := True)\<rparr>)"
    by (simp add: demo_defs demo_eval)
  have e: "globalWalk (appOptions demo_app) (optionMapOf demo_app) (commandMapOf demo_app)
          [''--name'', ''x''] {} demo_store
        = AtEnd {0} (demo_store\<lparr>strings := (strings demo_store)(0 := ''x'')\<rparr>)"
    by (simp add: demo_defs demo_eval)
  have a: "globalWalk (appOptions demo_app) (optionMapOf demo_app) (commandMapOf demo_app)
          [''--verbose'', ''build''] {} demo_store
        = AtCommand 0 [] {1} (demo_store\<lparr>bools := (bools demo_store)(0 := True)\<rparr>)
      \<and> parseCommand_loop (cmdOptions (fst (commands demo_app ! 0)))
            (nameMapOf (fst (commands demo_app ! 0))) []
            {} (demo_store\<lparr>bools := (bools demo_store)(0 := True)\<rparr>)
        = (None, {}, demo_store\<lparr>bools := (bools demo_store)(0 := True)\<rparr>)"
    by (simp add: demo_defs demo_eval)
  show ?thesis
    using c r e a
      unmatched_targets_unchanged [where app = demo_app and st = demo_store
        and prog = "''prog''" and cmd = number_command and args = "[''--verbose'', ''--nope'']"
        and e = "UnknownArg ''--nope''" and matched = "{1}"
        and st' = "demo_store\<lparr>bools := (bools demo_store)(0 := True)\<rparr>"]
      unmatched_targets_unchanged [where app = demo_app and st = demo_store
        and cmd = number_command and args = "[''-n'', ''5'']" and r = None and matched = "{0}"
        and st' = "demo_store\<lparr>ints := (ints demo_store)(0 := 5)\<rparr>"]
      unmatched_targets_unchanged [where app = demo_app and st = demo_store
        and cmd = number_command and args = "[''--name'', ''x'']" and matched = "{0}"
        and st' = "demo_store\<lparr>strings := (strings demo_store)(0 := ''x'')\<rparr>"]
      unmatched_targets_unchanged [where app = demo_app and st = demo_store
        and cmd = number_command and args = "[''--verbose'', ''build'']" and cmdIdx = 0
        and cmdArgs = "[]" and matched = "{1}"
        and ?st1.0 = "demo_store\<lparr>bools := (bools demo_store)(0 := True)\<rparr>"
        and r = None and matchedCmd = "{}"
        and st' = "demo_store\<lparr>bools := (bools demo_store)(0 := True)\<rparr>"]
    by (simp add: demo_defs demo_eval)
qed

section \<open>The executed flags\<close>

text \<open>
  What \<open>parse\<close> does to a \<^verbatim>\<open>bool\<close> that no option points to, by the way the global walk
  leaves: nothing, unless the walk stops at a command name; then the \<^verbatim>\<open>bool\<close> becomes
  true when it is the flag of that command and the command's \<open>parseCommand\<close> returns
  without raising.
\<close>

lemma parseArgs_flag_cases:
  assumes "BoolLoc p \<notin> targets (appOptions app) UNIV"
    and "\<forall>c\<in>set (commands app). BoolLoc p \<notin> targets (cmdOptions (fst c)) UNIV"
  shows "case globalWalk (appOptions app) (optionMapOf app) (commandMapOf app) args {} st of
           Raised e matched st' \<Rightarrow> bools (snd (parseArgs app args st)) p = bools st p
         | AtEnd matched st' \<Rightarrow> bools (snd (parseArgs app args st)) p = bools st p
         | AtCommand cmdIdx cmdArgs matched st1 \<Rightarrow>
             bools (snd (parseArgs app args st)) p
               = (bools st p
                  \<or> (snd (commands app ! cmdIdx) = p
                     \<and> fst (parseCommand (fst (commands app ! cmdIdx)) cmdArgs st1) = None))"
proof -
  let ?w = "globalWalk (appOptions app) (optionMapOf app) (commandMapOf app) args {} st"
  from globalWalk_frame [OF refl, where opts = "appOptions app" and optionMap = "optionMapOf app"
      and commandMap = "commandMapOf app" and args = args and parsedOptions = "{}" and st = st]
  have "unchanged_outside (targets (appOptions app) (walk_parsed ?w)) st (walk_store ?w)" by simp
  from unchanged_outside_bool [OF this assms(1)]
  have g: "bools (walk_store ?w) p = bools st p" .
  show ?thesis
  proof (cases ?w)
    case (Raised e matched st')
    with g show ?thesis by (simp add: parseArgs_walk)
  next
    case (AtEnd matched st')
    with g show ?thesis by (simp add: parseArgs_walk)
  next
    case (AtCommand cmdIdx cmdArgs matched st1)
    with g have g1: "bools st1 p = bools st p" by simp
    from walk_command_in_range [OF AtCommand] have c: "cmdIdx < length (commands app)" .
    obtain cmdPtr executed where cm: "commands app ! cmdIdx = (cmdPtr, executed)"
      by (cases "commands app ! cmdIdx") auto
    from c have "commands app ! cmdIdx \<in> set (commands app)" by simp
    with assms(2) cm have nt: "BoolLoc p \<notin> targets (cmdOptions cmdPtr) UNIV" by fastforce
    obtain r matchedCmd st2 where
      l: "parseCommand_loop (cmdOptions cmdPtr) (nameMapOf cmdPtr) cmdArgs {} st1
            = (r, matchedCmd, st2)"
      by (cases "parseCommand_loop (cmdOptions cmdPtr) (nameMapOf cmdPtr) cmdArgs {} st1") auto
    from parseCommand_frame [OF l]
    have pc: "parseCommand cmdPtr cmdArgs st1 = (r, st2)"
      and f: "unchanged_outside (targets (cmdOptions cmdPtr) matchedCmd) st1 st2" by simp_all
    from unchanged_outside_bool [OF f nt] g1 have g2: "bools st2 p = bools st p" by simp
    have res: "parseArgs app args st = processCommand app cmdIdx cmdArgs st1"
      using AtCommand by (simp add: parseArgs_walk)
    show ?thesis
    proof (cases r)
      case None
      with c cm pc have "snd (processCommand app cmdIdx cmdArgs st1)
          = st2\<lparr>bools := (bools st2)(executed := True)\<rparr>"
        by (simp add: processCommand_def)
      with res g2 have "bools (snd (parseArgs app args st)) p = (bools st p \<or> executed = p)"
        by auto
      with AtCommand cm pc None show ?thesis by simp
    next
      case (Some e)
      with c cm pc have "snd (processCommand app cmdIdx cmdArgs st1) = st2"
        by (simp add: processCommand_def)
      with res g2 have "bools (snd (parseArgs app args st)) p = bools st p" by simp
      with AtCommand cm pc Some show ?thesis by simp
    qed
  qed
qed

text \<open>
  Claim C1, as amended. The flag is written after the command's \<open>parseCommand\<close> has
  returned, so a command whose name is matched and whose own arguments then fail to
  parse leaves its flag untouched. Take a \<^verbatim>\<open>bool\<close> that is not the target of a \<^verbatim>\<open>bool\<close> option
  of the application or of one of its commands.

    \<^item> It is true after a \<open>parse\<close> call if and only if it was true before the call, or
      the global walk stopped at a command whose flag it is and that command's
      \<open>parseCommand\<close> returned without raising.

    \<^item> When it is the flag of a registered command, no other registered command has
      that flag, and no other registered command has that command's name: it is true
      after the call if and only if it was true before the call, or the tokens are
      some tokens that the global walk gets through without error and without
      stopping, then the command's name, then tokens on which the command's
      \<open>parseCommand\<close> returns without raising.
\<close>

theorem executed_iff_matched_and_parsed:
  assumes "BoolLoc p \<notin> targets (appOptions app) UNIV"
    and "\<forall>c\<in>set (commands app). BoolLoc p \<notin> targets (cmdOptions (fst c)) UNIV"
  shows "(bools (snd (parseArgs app args st)) p
     = (bools st p
        \<or> (\<exists>cmdIdx cmdArgs matched st1.
              globalWalk (appOptions app) (optionMapOf app) (commandMapOf app) args {} st
                = AtCommand cmdIdx cmdArgs matched st1
              \<and> snd (commands app ! cmdIdx) = p
              \<and> fst (parseCommand (fst (commands app ! cmdIdx)) cmdArgs st1) = None)))
   \<and> (c < length (commands app) \<and> snd (commands app ! c) = p
      \<and> (\<forall>j<length (commands app).
            cmdName (fst (commands app ! j)) = cmdName (fst (commands app ! c))
            \<or> snd (commands app ! j) = p \<longrightarrow> j = c)
    \<longrightarrow> bools (snd (parseArgs app args st)) p
        = (bools st p
           \<or> (\<exists>pre rest matched st1.
                 args = pre @ cmdName (fst (commands app ! c)) # rest
                 \<and> globalWalk (appOptions app) (optionMapOf app) (commandMapOf app) pre {} st
                     = AtEnd matched st1
                 \<and> fst (parseCommand (fst (commands app ! c)) rest st1) = None)))"
proof -
  let ?w = "globalWalk (appOptions app) (optionMapOf app) (commandMapOf app)"
  have A: "bools (snd (parseArgs app args st)) p
     = (bools st p
        \<or> (\<exists>cmdIdx cmdArgs matched st1.
              ?w args {} st = AtCommand cmdIdx cmdArgs matched st1
              \<and> snd (commands app ! cmdIdx) = p
              \<and> fst (parseCommand (fst (commands app ! cmdIdx)) cmdArgs st1) = None))"
  proof (cases "?w args {} st")
    case (Raised e matched st')
    with parseArgs_flag_cases [OF assms, of args st]
    show ?thesis by simp
  next
    case (AtEnd matched st')
    with parseArgs_flag_cases [OF assms, of args st]
    show ?thesis by simp
  next
    case (AtCommand cmdIdx cmdArgs matched st1)
    with parseArgs_flag_cases [OF assms, of args st]
    have "bools (snd (parseArgs app args st)) p
        = (bools st p
           \<or> (snd (commands app ! cmdIdx) = p
              \<and> fst (parseCommand (fst (commands app ! cmdIdx)) cmdArgs st1) = None))"
      by simp
    with AtCommand show ?thesis by simp
  qed
  have B: "(\<exists>cmdIdx cmdArgs matched st1.
              ?w args {} st = AtCommand cmdIdx cmdArgs matched st1
              \<and> snd (commands app ! cmdIdx) = p
              \<and> fst (parseCommand (fst (commands app ! cmdIdx)) cmdArgs st1) = None)
        = (\<exists>pre rest matched st1.
              args = pre @ cmdName (fst (commands app ! c)) # rest
              \<and> ?w pre {} st = AtEnd matched st1
              \<and> fst (parseCommand (fst (commands app ! c)) rest st1) = None)"
    if c: "c < length (commands app)" and fl: "snd (commands app ! c) = p"
      and un: "\<forall>j<length (commands app).
            cmdName (fst (commands app ! j)) = cmdName (fst (commands app ! c))
            \<or> snd (commands app ! j) = p \<longrightarrow> j = c"
  proof
    assume "\<exists>cmdIdx cmdArgs matched st1.
              ?w args {} st = AtCommand cmdIdx cmdArgs matched st1
              \<and> snd (commands app ! cmdIdx) = p
              \<and> fst (parseCommand (fst (commands app ! cmdIdx)) cmdArgs st1) = None"
    then obtain cmdIdx cmdArgs matched st1 where
      at: "?w args {} st = AtCommand cmdIdx cmdArgs matched st1"
      and f: "snd (commands app ! cmdIdx) = p"
      and ok: "fst (parseCommand (fst (commands app ! cmdIdx)) cmdArgs st1) = None" by blast
    from walk_command_in_range [OF at] f un have ci: "cmdIdx = c" by blast
    from globalWalk_decompose [OF at]
    obtain pre tok where d: "args = pre @ tok # cmdArgs"
      "map_of (commandMapOf app) tok = Some cmdIdx" "?w pre {} st = AtEnd matched st1" by blast
    from d(2) have "tok = cmdName (fst (commands app ! cmdIdx))" by (rule commandMap_name)
    with d ok ci show "\<exists>pre rest matched st1.
              args = pre @ cmdName (fst (commands app ! c)) # rest
              \<and> ?w pre {} st = AtEnd matched st1
              \<and> fst (parseCommand (fst (commands app ! c)) rest st1) = None" by blast
  next
    assume "\<exists>pre rest matched st1.
              args = pre @ cmdName (fst (commands app ! c)) # rest
              \<and> ?w pre {} st = AtEnd matched st1
              \<and> fst (parseCommand (fst (commands app ! c)) rest st1) = None"
    then obtain pre rest matched st1 where
      a: "args = pre @ cmdName (fst (commands app ! c)) # rest"
      and w: "?w pre {} st = AtEnd matched st1"
      and ok: "fst (parseCommand (fst (commands app ! c)) rest st1) = None" by blast
    from un have "\<forall>j<length (commands app).
        cmdName (fst (commands app ! j)) = cmdName (fst (commands app ! c)) \<longrightarrow> j = c" by blast
    from commandMap_unique [OF c this]
    have "map_of (commandMapOf app) (cmdName (fst (commands app ! c))) = Some c" .
    from walk_reaches_command [OF w this, of rest] a
    have "?w args {} st = AtCommand c rest matched st1" by simp
    with fl ok show "\<exists>cmdIdx cmdArgs matched st1.
              ?w args {} st = AtCommand cmdIdx cmdArgs matched st1
              \<and> snd (commands app ! cmdIdx) = p
              \<and> fst (parseCommand (fst (commands app ! cmdIdx)) cmdArgs st1) = None" by blast
  qed
  show ?thesis
  proof (intro conjI impI)
    show "bools (snd (parseArgs app args st)) p
       = (bools st p
          \<or> (\<exists>cmdIdx cmdArgs matched st1.
                ?w args {} st = AtCommand cmdIdx cmdArgs matched st1
                \<and> snd (commands app ! cmdIdx) = p
                \<and> fst (parseCommand (fst (commands app ! cmdIdx)) cmdArgs st1) = None))"
      by (rule A)
  next
    assume h: "c < length (commands app) \<and> snd (commands app ! c) = p
      \<and> (\<forall>j<length (commands app).
            cmdName (fst (commands app ! j)) = cmdName (fst (commands app ! c))
            \<or> snd (commands app ! j) = p \<longrightarrow> j = c)"
    from h have h1: "c < length (commands app)" by (rule conjunct1)
    from h have h2: "snd (commands app ! c) = p" by (rule conjunct2 [THEN conjunct1])
    from h have h3: "\<forall>j<length (commands app).
            cmdName (fst (commands app ! j)) = cmdName (fst (commands app ! c))
            \<or> snd (commands app ! j) = p \<longrightarrow> j = c" by (rule conjunct2 [THEN conjunct2])
    show "bools (snd (parseArgs app args st)) p
        = (bools st p
           \<or> (\<exists>pre rest matched st1.
                 args = pre @ cmdName (fst (commands app ! c)) # rest
                 \<and> ?w pre {} st = AtEnd matched st1
                 \<and> fst (parseCommand (fst (commands app ! c)) rest st1) = None))"
      unfolding B [OF h1 h2 h3, symmetric] by (rule A)
  qed
qed

theorem executed_iff_matched_and_parsed_witness:
  "bools (snd (parseArgs demo_app [''--verbose'', ''build''] demo_store)) 1
     = (bools demo_store 1
        \<or> (\<exists>cmdIdx cmdArgs matched st1.
              globalWalk (appOptions demo_app) (optionMapOf demo_app) (commandMapOf demo_app)
                  [''--verbose'', ''build''] {} demo_store
                = AtCommand cmdIdx cmdArgs matched st1
              \<and> snd (commands demo_app ! cmdIdx) = 1
              \<and> fst (parseCommand (fst (commands demo_app ! cmdIdx)) cmdArgs st1) = None))
   \<and> bools (snd (parseArgs demo_app [''--verbose'', ''build''] demo_store)) 1
     = (bools demo_store 1
        \<or> (\<exists>pre rest matched st1.
              [''--verbose'', ''build''] = pre @ cmdName (fst (commands demo_app ! 0)) # rest
              \<and> globalWalk (appOptions demo_app) (optionMapOf demo_app) (commandMapOf demo_app)
                  pre {} demo_store
                = AtEnd matched st1
              \<and> fst (parseCommand (fst (commands demo_app ! 0)) rest st1) = None))
   \<and> bools (snd (parseArgs demo_app [''--verbose'', ''build''] demo_store)) 1 = True"
proof -
  have h1: "BoolLoc 1 \<notin> targets (appOptions demo_app) UNIV"
    by (auto simp: targets_def demo_defs nth_Cons')
  have h2: "\<forall>c\<in>set (commands demo_app). BoolLoc 1 \<notin> targets (cmdOptions (fst c)) UNIV"
    by (simp add: targets_def demo_defs)
  have h3: "0 < length (commands demo_app) \<and> snd (commands demo_app ! 0) = 1
      \<and> (\<forall>j<length (commands demo_app).
            cmdName (fst (commands demo_app ! j)) = cmdName (fst (commands demo_app ! 0))
            \<or> snd (commands demo_app ! j) = 1 \<longrightarrow> j = 0)"
    by (simp add: demo_defs)
  note t = executed_iff_matched_and_parsed [OF h1 h2, where args = "[''--verbose'', ''build'']"
      and st = demo_store and c = 0]
  have r3: "bools (snd (parseArgs demo_app [''--verbose'', ''build''] demo_store)) 1 = True"
    by (simp add: demo_defs demo_eval)
  show ?thesis
    by (intro conjI) (rule t [THEN conjunct1], rule t [THEN conjunct2, THEN mp, OF h3], rule r3)
qed

theorem executed_not_set_counterexample:
  "globalWalk (appOptions demo_app) (optionMapOf demo_app) (commandMapOf demo_app)
       [''build'', ''--nope''] {} demo_store
     = AtCommand 0 [''--nope''] {} demo_store
   \<and> cmdName (fst (commands demo_app ! 0)) = ''build''
   \<and> snd (commands demo_app ! 0) = 1
   \<and> fst (parseArgs demo_app [''build'', ''--nope''] demo_store) = Some (UnknownArg ''--nope'')
   \<and> \<not> bools (snd (parseArgs demo_app [''build'', ''--nope''] demo_store)) 1
   \<and> fst (parse demo_app 3 [''app'', ''build'', ''--nope''] demo_store)
       = Some (UnknownArg ''--nope'')
   \<and> \<not> bools (snd (parse demo_app 3 [''app'', ''build'', ''--nope''] demo_store)) 1"
  by (simp add: parse_def buildArray_def upt_rec demo_defs demo_eval)

section \<open>Command tokens\<close>

text \<open>
  Claim C2, as amended. A token equal to a command name that is taken as the value of
  the value-needing option before it does not end anything: the global walk goes on
  after it. When the global walk has got through the tokens before without error and
  without stopping, and the next token is the name of a registered command, global
  processing ends there: the walk stops with what it had matched and written so far,
  the command that runs is the one registered last under that name, every token after
  the name is the argument list of its \<open>parseCommand\<close>, and the outcome of that call,
  with the flag of the command set when it returns without raising, is the outcome of
  \<open>parse\<close>. The global walk stops before the end of the tokens, other than by raising,
  only in this way. Among the \<^verbatim>\<open>bool\<close>s that are not the target of a \<^verbatim>\<open>bool\<close> option of the
  application or of one of its commands, at most one is changed by the call.
\<close>

theorem command_token_ends_global_walk:
  "(globalWalk (appOptions app) (optionMapOf app) (commandMapOf app) pre {} st
        = AtEnd matched st1
      \<and> c < length (commands app) \<and> tok = cmdName (fst (commands app ! c))
    \<longrightarrow> (\<exists>cmdIdx. map_of (commandMapOf app) tok = Some cmdIdx
          \<and> cmdIdx < length (commands app)
          \<and> cmdName (fst (commands app ! cmdIdx)) = tok
          \<and> (\<forall>j<length (commands app). cmdName (fst (commands app ! j)) = tok \<longrightarrow> j \<le> cmdIdx)
          \<and> globalWalk (appOptions app) (optionMapOf app) (commandMapOf app)
                (pre @ tok # rest) {} st
              = AtCommand cmdIdx rest matched st1
          \<and> parseArgs app (pre @ tok # rest) st
              = (case parseCommand (fst (commands app ! cmdIdx)) rest st1 of
                   (Some e, st2) \<Rightarrow> (Some e, st2)
                 | (None, st2) \<Rightarrow>
                     (None, st2\<lparr>bools := (bools st2)(snd (commands app ! cmdIdx) := True)\<rparr>))))
   \<and> (globalWalk (appOptions app) (optionMapOf app) (commandMapOf app) args {} st
        = AtCommand cmdIdx cmdArgs matched st1
    \<longrightarrow> cmdIdx < length (commands app)
        \<and> (\<exists>pre. args = pre @ cmdName (fst (commands app ! cmdIdx)) # cmdArgs
              \<and> map_of (commandMapOf app) (cmdName (fst (commands app ! cmdIdx))) = Some cmdIdx
              \<and> globalWalk (appOptions app) (optionMapOf app) (commandMapOf app) pre {} st
                  = AtEnd matched st1))
   \<and> (BoolLoc p \<notin> targets (appOptions app) UNIV
      \<and> (\<forall>c\<in>set (commands app). BoolLoc p \<notin> targets (cmdOptions (fst c)) UNIV)
      \<and> BoolLoc q \<notin> targets (appOptions app) UNIV
      \<and> (\<forall>c\<in>set (commands app). BoolLoc q \<notin> targets (cmdOptions (fst c)) UNIV)
      \<and> bools (snd (parseArgs app args st)) p \<noteq> bools st p
      \<and> bools (snd (parseArgs app args st)) q \<noteq> bools st q
    \<longrightarrow> p = q)"
proof (intro conjI impI)
  assume h: "globalWalk (appOptions app) (optionMapOf app) (commandMapOf app) pre {} st
        = AtEnd matched st1
      \<and> c < length (commands app) \<and> tok = cmdName (fst (commands app ! c))"
  then have w: "globalWalk (appOptions app) (optionMapOf app) (commandMapOf app) pre {} st
        = AtEnd matched st1"
    and c: "c < length (commands app)" and tok: "tok = cmdName (fst (commands app ! c))"
    by simp_all
  from commandMap_registered [OF c] tok
  obtain cmdIdx where m: "map_of (commandMapOf app) tok = Some cmdIdx"
    and r: "cmdIdx < length (commands app)"
    and n: "cmdName (fst (commands app ! cmdIdx)) = tok" by auto
  have l: "\<forall>j<length (commands app). cmdName (fst (commands app ! j)) = tok \<longrightarrow> j \<le> cmdIdx"
    using commandMap_last [OF m] by blast
  have at: "globalWalk (appOptions app) (optionMapOf app) (commandMapOf app) (pre @ tok # rest) {} st
          = AtCommand cmdIdx rest matched st1"
    by (rule walk_reaches_command [OF w m])
  have pa: "parseArgs app (pre @ tok # rest) st
          = (case parseCommand (fst (commands app ! cmdIdx)) rest st1 of
               (Some e, st2) \<Rightarrow> (Some e, st2)
             | (None, st2) \<Rightarrow>
                 (None, st2\<lparr>bools := (bools st2)(snd (commands app ! cmdIdx) := True)\<rparr>))"
    using at processCommand_unfold [OF r, of rest st1] by (simp add: parseArgs_walk)
  from m r n l at pa
  show "\<exists>cmdIdx. map_of (commandMapOf app) tok = Some cmdIdx
          \<and> cmdIdx < length (commands app)
          \<and> cmdName (fst (commands app ! cmdIdx)) = tok
          \<and> (\<forall>j<length (commands app). cmdName (fst (commands app ! j)) = tok \<longrightarrow> j \<le> cmdIdx)
          \<and> globalWalk (appOptions app) (optionMapOf app) (commandMapOf app)
                (pre @ tok # rest) {} st
              = AtCommand cmdIdx rest matched st1
          \<and> parseArgs app (pre @ tok # rest) st
              = (case parseCommand (fst (commands app ! cmdIdx)) rest st1 of
                   (Some e, st2) \<Rightarrow> (Some e, st2)
                 | (None, st2) \<Rightarrow>
                     (None, st2\<lparr>bools := (bools st2)(snd (commands app ! cmdIdx) := True)\<rparr>))"
    by blast
next
  assume a: "globalWalk (appOptions app) (optionMapOf app) (commandMapOf app) args {} st
        = AtCommand cmdIdx cmdArgs matched st1"
  then show "cmdIdx < length (commands app)" by (rule walk_command_in_range)
  from globalWalk_decompose [OF a]
  obtain pre tok where d: "args = pre @ tok # cmdArgs"
    "map_of (commandMapOf app) tok = Some cmdIdx"
    "globalWalk (appOptions app) (optionMapOf app) (commandMapOf app) pre {} st
       = AtEnd matched st1" by blast
  from d(2) have "tok = cmdName (fst (commands app ! cmdIdx))" by (rule commandMap_name)
  with d show "\<exists>pre. args = pre @ cmdName (fst (commands app ! cmdIdx)) # cmdArgs
              \<and> map_of (commandMapOf app) (cmdName (fst (commands app ! cmdIdx))) = Some cmdIdx
              \<and> globalWalk (appOptions app) (optionMapOf app) (commandMapOf app) pre {} st
                  = AtEnd matched st1"
    by blast
next
  assume h: "BoolLoc p \<notin> targets (appOptions app) UNIV
      \<and> (\<forall>c\<in>set (commands app). BoolLoc p \<notin> targets (cmdOptions (fst c)) UNIV)
      \<and> BoolLoc q \<notin> targets (appOptions app) UNIV
      \<and> (\<forall>c\<in>set (commands app). BoolLoc q \<notin> targets (cmdOptions (fst c)) UNIV)
      \<and> bools (snd (parseArgs app args st)) p \<noteq> bools st p
      \<and> bools (snd (parseArgs app args st)) q \<noteq> bools st q"
  then have p: "BoolLoc p \<notin> targets (appOptions app) UNIV"
      "\<forall>c\<in>set (commands app). BoolLoc p \<notin> targets (cmdOptions (fst c)) UNIV"
    and q: "BoolLoc q \<notin> targets (appOptions app) UNIV"
      "\<forall>c\<in>set (commands app). BoolLoc q \<notin> targets (cmdOptions (fst c)) UNIV"
    and ch: "bools (snd (parseArgs app args st)) p \<noteq> bools st p"
      "bools (snd (parseArgs app args st)) q \<noteq> bools st q" by simp_all
  from parseArgs_flag_cases [OF p, of args st] ch(1)
  obtain c1 a1 m1 s1 where
    "globalWalk (appOptions app) (optionMapOf app) (commandMapOf app) args {} st
       = AtCommand c1 a1 m1 s1" "snd (commands app ! c1) = p"
    by (cases "globalWalk (appOptions app) (optionMapOf app) (commandMapOf app) args {} st")
       auto
  moreover from parseArgs_flag_cases [OF q, of args st] ch(2)
  obtain c2 a2 m2 s2 where
    "globalWalk (appOptions app) (optionMapOf app) (commandMapOf app) args {} st
       = AtCommand c2 a2 m2 s2" "snd (commands app ! c2) = q"
    by (cases "globalWalk (appOptions app) (optionMapOf app) (commandMapOf app) args {} st")
       auto
  ultimately show "p = q" by simp
qed

theorem command_token_ends_global_walk_witness:
  "parseArgs demo_app [''--verbose'', ''build'', ''--nope''] demo_store
     = (Some (UnknownArg ''--nope''), demo_store\<lparr>bools := (bools demo_store)(0 := True)\<rparr>)
   \<and> (\<exists>pre. [''--verbose'', ''build'', ''--nope'']
              = pre @ cmdName (fst (commands demo_app ! 0)) # [''--nope'']
          \<and> map_of (commandMapOf demo_app) (cmdName (fst (commands demo_app ! 0))) = Some 0
          \<and> globalWalk (appOptions demo_app) (optionMapOf demo_app) (commandMapOf demo_app)
                pre {} demo_store
              = AtEnd {1} (demo_store\<lparr>bools := (bools demo_store)(0 := True)\<rparr>))
   \<and> bools (snd (parseArgs demo_app [''build''] demo_store)) 1 = True"
proof -
  have a: "globalWalk (appOptions demo_app) (optionMapOf demo_app) (commandMapOf demo_app)
          [''--verbose''] {} demo_store
        = AtEnd {1} (demo_store\<lparr>bools := (bools demo_store)(0 := True)\<rparr>)
      \<and> 0 < length (commands demo_app) \<and> ''build'' = cmdName (fst (commands demo_app ! 0))"
    by (simp add: demo_defs demo_eval)
  have b: "globalWalk (appOptions demo_app) (optionMapOf demo_app) (commandMapOf demo_app)
          [''--verbose'', ''build'', ''--nope''] {} demo_store
        = AtCommand 0 [''--nope''] {1} (demo_store\<lparr>bools := (bools demo_store)(0 := True)\<rparr>)"
    by (simp add: demo_defs demo_eval)
  have c: "BoolLoc 1 \<notin> targets (appOptions demo_app) UNIV
      \<and> (\<forall>c\<in>set (commands demo_app). BoolLoc 1 \<notin> targets (cmdOptions (fst c)) UNIV)
      \<and> bools (snd (parseArgs demo_app [''build''] demo_store)) 1 \<noteq> bools demo_store 1"
    by (auto simp: targets_def demo_defs demo_eval nth_Cons')
  have d: "parseCommand (fst (commands demo_app ! 0)) [''--nope'']
        (demo_store\<lparr>bools := (bools demo_store)(0 := True)\<rparr>)
      = (Some (UnknownArg ''--nope''), demo_store\<lparr>bools := (bools demo_store)(0 := True)\<rparr>)"
    by (simp add: demo_defs demo_eval)
  have m: "map_of (commandMapOf demo_app) ''build'' = Some 0"
    by (simp add: demo_defs)
  note t = command_token_ends_global_walk [where app = demo_app and pre = "[''--verbose'']"
        and st = demo_store and matched = "{1}"
        and ?st1.0 = "demo_store\<lparr>bools := (bools demo_store)(0 := True)\<rparr>"
        and tok = "''build''" and c = 0 and cmdIdx = 0 and rest = "[''--nope'']"
        and args = "[''--verbose'', ''build'', ''--nope'']" and cmdArgs = "[''--nope'']"]
  from t [where p = 1 and q = 1, THEN conjunct1, THEN mp, OF a]
  obtain cmdIdx where "map_of (commandMapOf demo_app) ''build'' = Some cmdIdx"
    and pa: "parseArgs demo_app ([''--verbose''] @ ''build'' # [''--nope'']) demo_store
      = (case parseCommand (fst (commands demo_app ! cmdIdx)) [''--nope'']
              (demo_store\<lparr>bools := (bools demo_store)(0 := True)\<rparr>) of
           (Some e, st2) \<Rightarrow> (Some e, st2)
         | (None, st2) \<Rightarrow>
             (None, st2\<lparr>bools := (bools st2)(snd (commands demo_app ! cmdIdx) := True)\<rparr>))"
    by blast
  with m have ci: "cmdIdx = 0" by simp
  from pa [unfolded ci d]
  have r1: "parseArgs demo_app [''--verbose'', ''build'', ''--nope''] demo_store
     = (Some (UnknownArg ''--nope''), demo_store\<lparr>bools := (bools demo_store)(0 := True)\<rparr>)"
    by simp
  from t [where p = 1 and q = 1, THEN conjunct2, THEN conjunct1, THEN mp, OF b]
  have r2: "\<exists>pre. [''--verbose'', ''build'', ''--nope'']
              = pre @ cmdName (fst (commands demo_app ! 0)) # [''--nope'']
          \<and> map_of (commandMapOf demo_app) (cmdName (fst (commands demo_app ! 0))) = Some 0
          \<and> globalWalk (appOptions demo_app) (optionMapOf demo_app) (commandMapOf demo_app)
                pre {} demo_store
              = AtEnd {1} (demo_store\<lparr>bools := (bools demo_store)(0 := True)\<rparr>)"
    by (elim conjE)
  from c command_token_ends_global_walk [where app = demo_app and args = "[''build'']"
        and st = demo_store and p = 1 and q = 1, THEN conjunct2, THEN conjunct2]
  have r4: "(1 :: nat) = 1" by blast
  have r3: "bools (snd (parseArgs demo_app [''build''] demo_store)) 1 = True"
    by (simp add: demo_defs demo_eval)
  from r1 r2 r3 r4 show ?thesis by blast
qed


theorem command_name_as_value_counterexample:
  "map_of (commandMapOf demo_app) ''build'' = Some 0
   \<and> map_of (commandMapOf demo_app) ''--name'' = None
   \<and> fst (parseArgs demo_app [''--name'', ''build'', ''--verbose''] demo_store) = None
   \<and> strings (snd (parseArgs demo_app [''--name'', ''build'', ''--verbose''] demo_store)) 0
       = ''build''
   \<and> bools (snd (parseArgs demo_app [''--name'', ''build'', ''--verbose''] demo_store)) 0 = True
   \<and> \<not> bools (snd (parseArgs demo_app [''--name'', ''build'', ''--verbose''] demo_store)) 1
   \<and> fst (parseCommand build_command [''--verbose''] demo_store)
       = Some (UnknownArg ''--verbose'')
   \<and> fst (parse demo_app 4 [''app'', ''--name'', ''build'', ''--verbose''] demo_store) = None
   \<and> \<not> bools (snd (parse demo_app 4 [''app'', ''--name'', ''build'', ''--verbose''] demo_store)) 1"
  by (simp add: parse_def buildArray_def upt_rec demo_defs demo_eval)

end
